theory Spec2Isabelle
  imports Complex_Main
begin

section \<open>Values, errors and the rules engine\<close>

text \<open>
  The engine of \<^verbatim>\<open>src/chessai.py\<close> (class \<^verbatim>\<open>ChessAI\<close>) works on Python floats and on
  a board object of the python-chess library. Floats are modelled by exact real numbers,
  extended by the two infinities that serve as unbounded search bounds; rounding is not
  modelled. Exceptions are values of the type \<open>error\<close>.
\<close>

datatype pyfloat = NegInf | Fin real | PosInf

instantiation pyfloat :: linorder
begin

fun less_eq_pyfloat :: "pyfloat \<Rightarrow> pyfloat \<Rightarrow> bool" where
  "less_eq_pyfloat NegInf y = True"
| "less_eq_pyfloat (Fin x) NegInf = False"
| "less_eq_pyfloat (Fin x) (Fin y) = (x \<le> y)"
| "less_eq_pyfloat (Fin x) PosInf = True"
| "less_eq_pyfloat PosInf PosInf = True"
| "less_eq_pyfloat PosInf y = False"

definition less_pyfloat :: "pyfloat \<Rightarrow> pyfloat \<Rightarrow> bool" where
  "less_pyfloat x y = (x \<le> y \<and> \<not> y \<le> x)"

instance
proof
  fix x y z :: pyfloat
  show "(x < y) = (x \<le> y \<and> \<not> y \<le> x)"
    by (simp add: less_pyfloat_def)
  show "x \<le> x"
    by (cases x) simp_all
  show "x \<le> y \<Longrightarrow> y \<le> z \<Longrightarrow> x \<le> z"
    by (cases x; cases y; cases z) simp_all
  show "x \<le> y \<Longrightarrow> y \<le> x \<Longrightarrow> x = y"
    by (cases x; cases y) simp_all
  show "x \<le> y \<or> y \<le> x"
    by (cases x; cases y) auto
qed

end

datatype error = IndexError | TypeError | AttributeError | UnpicklingError | EOFError | OSError

text \<open>
  A move of python-chess carries its origin square, its target square and an optional
  promotion piece; \<^verbatim>\<open>chess.Move.null()\<close> is the move from square 0 to square 0.
\<close>

record move =
  from_square :: nat
  to_square :: nat
  promotion :: "nat option"

definition null :: move where
  "null = \<lparr>from_square = 0, to_square = 0, promotion = None\<rparr>"

text \<open>
  The rules engine is an external library. What the engine's code reads from it is taken
  as a parameter: the legal moves of a position in generation order, the position a move
  (or the null move) leads to, the squares holding a piece type of a colour in ascending
  order (the iteration order of a square set), the side to move (\<open>True\<close> for White) and
  the Zobrist hash of \<^verbatim>\<open>chess.polyglot\<close>.
\<close>

record 'p rules =
  legal_moves :: "'p \<Rightarrow> move list"
  make_move :: "'p \<Rightarrow> move \<Rightarrow> 'p"
  pieces :: "'p \<Rightarrow> nat \<Rightarrow> bool \<Rightarrow> nat list"
  turn :: "'p \<Rightarrow> bool"
  zobrist_hash :: "'p \<Rightarrow> int"

text \<open>
  A board is the current position together with the stack of the moves made and the
  positions they were made from. \<^verbatim>\<open>push\<close> saves the position and applies the move;
  \<^verbatim>\<open>pop\<close> restores the saved position, and raises \<^verbatim>\<open>IndexError\<close> on an empty stack.
\<close>

record 'p board =
  position :: 'p
  stack :: "(move \<times> 'p) list"

definition push :: "'p rules \<Rightarrow> move \<Rightarrow> 'p board \<Rightarrow> 'p board" where
  "push E m b = \<lparr>position = make_move E (position b) m, stack = (m, position b) # stack b\<rparr>"

definition pop :: "'p board \<Rightarrow> error + (move \<times> 'p board)" where
  "pop b = (case stack b of
              [] \<Rightarrow> Inl IndexError
            | (m, p) # st \<Rightarrow> Inr (m, \<lparr>position = p, stack = st\<rparr>))"

section \<open>The engine object\<close>

text \<open>
  The objects that \<^verbatim>\<open>pickle.load\<close> can return: a dictionary from hashes to valuations,
  a classifier (its \<^verbatim>\<open>predict_proba\<close>, reduced to the probability the engine reads), or
  an object of any other kind.
\<close>

type_synonym classifier = "real list \<Rightarrow> real"

datatype pyobject = Dictionary "int \<Rightarrow> real option" | Classifier classifier | OtherObject

text \<open>
  The attributes of \<^verbatim>\<open>ChessAI\<close> that change or depend on the constructor's arguments are
  the position cache, the cache path and the model: the object unpickled from the model
  path, absent when no model was loaded. The weights are constants set in
  \<^verbatim>\<open>__init__\<close>. The record is the engine whose position cache is a dictionary.
\<close>

record chessai =
  position_cache :: "int \<rightharpoonup> real"
  cache_path :: string
  model :: "pyobject option"

definition piece_indices :: "nat list" where
  "piece_indices = [1..<6]"

definition white_piece_values :: "real list" where
  "white_piece_values = [1, 3, 3.3, 4.2, 9, 15]"

definition black_piece_values :: "real list" where
  "black_piece_values = map (\<lambda>x. - 0.97 * x) white_piece_values"

definition piece_values :: "real list" where
  "piece_values = white_piece_values @ black_piece_values"

definition mobility_weight :: real where
  "mobility_weight = 0.1"

definition pawn_development_weight :: real where
  "pawn_development_weight = 0.05"

definition move_entropy_weight :: real where
  "move_entropy_weight = 0.25"

section \<open>Features\<close>

text \<open>
  \<^verbatim>\<open>build_distribution\<close> counts the samples in a dictionary; the dictionary is an
  association list in insertion order.
\<close>

fun increment :: "nat \<Rightarrow> (nat \<times> nat) list \<Rightarrow> (nat \<times> nat) list" where
  "increment s [] = [(s, 0 + 1)]"
| "increment s ((k, c) # d) = (if k = s then (k, c + 1) # d else (k, c) # increment s d)"

definition build_distribution :: "nat list \<Rightarrow> (nat \<times> nat) list" where
  "build_distribution samples = foldl (\<lambda>distribution sample. increment sample distribution) [] samples"

text \<open>
  \<^verbatim>\<open>get_entropy\<close> returns the product of the counts; the statements after its first
  \<^verbatim>\<open>return\<close> are never executed.
\<close>

definition get_entropy :: "nat list \<Rightarrow> real" where
  "get_entropy samples =
     foldl (\<lambda>product count. product * real count) 1 (map snd (build_distribution samples))"

definition count_pieces :: "'p rules \<Rightarrow> 'p board \<Rightarrow> nat list" where
  "count_pieces E b =
     map (\<lambda>piece_index. length (pieces E (position b) piece_index True)) piece_indices
     @ map (\<lambda>piece_index. length (pieces E (position b) piece_index False)) piece_indices"

definition get_move_starts :: "move list \<Rightarrow> nat list" where
  "get_move_starts moves = map from_square moves"

text \<open>
  \<^verbatim>\<open>get_mobility_features\<close> returns white's and black's move counts and the two
  products. With White to move it pushes the null move and pops it; with Black to move it
  pops first and pushes the null move afterwards.
\<close>

definition get_mobility_features ::
  "'p rules \<Rightarrow> 'p board \<Rightarrow> (error + (nat \<times> nat \<times> real \<times> real)) \<times> 'p board" where
  "get_mobility_features E b =
     (if turn E (position b) then
        let white_moves = legal_moves E (position b);
            white_mobility = length white_moves;
            white_move_entropy = get_entropy (get_move_starts white_moves);
            b1 = push E null b;
            black_moves = legal_moves E (position b1);
            black_mobility = length black_moves;
            black_move_entropy = get_entropy (get_move_starts black_moves)
        in (case pop b1 of
              Inl e \<Rightarrow> (Inl e, b1)
            | Inr (m, b2) \<Rightarrow>
                (Inr (white_mobility, black_mobility, white_move_entropy, black_move_entropy), b2))
      else
        let black_moves = legal_moves E (position b);
            black_mobility = length black_moves;
            black_move_entropy = get_entropy (get_move_starts black_moves)
        in (case pop b of
              Inl e \<Rightarrow> (Inl e, b)
            | Inr (m, b1) \<Rightarrow>
                let white_moves = legal_moves E (position b1);
                    white_mobility = length white_moves;
                    white_move_entropy = get_entropy (get_move_starts white_moves);
                    b2 = push E null b1
                in (Inr (white_mobility, black_mobility, white_move_entropy, black_move_entropy), b2)))"

text \<open>\<^verbatim>\<open>int(square/8)\<close> is the rank index of a square, for the squares 0 to 63.\<close>

definition get_pawn_development :: "'p rules \<Rightarrow> 'p board \<Rightarrow> nat \<times> nat" where
  "get_pawn_development E b =
     (let white_pawn_squares = pieces E (position b) 1 True;
          white_pawn_development = sum_list (map (\<lambda>square. square div 8) white_pawn_squares);
          black_pawn_squares = pieces E (position b) 1 False;
          black_pawn_development = sum_list (map (\<lambda>square. square div 8) black_pawn_squares)
      in (white_pawn_development, black_pawn_development))"

text \<open>
  The three feature groups are computed in this order on the one board object, so the
  pawn development is read from the board as the mobility computation leaves it.
\<close>

definition get_heuristic_features ::
  "'p rules \<Rightarrow> 'p board \<Rightarrow>
     (error + (nat list \<times> (nat \<times> nat \<times> real \<times> real) \<times> (nat \<times> nat))) \<times> 'p board" where
  "get_heuristic_features E b =
     (let piece_counts = count_pieces E b in
      case get_mobility_features E b of
        (Inl e, b') \<Rightarrow> (Inl e, b')
      | (Inr mobility_features, b') \<Rightarrow>
          (Inr (piece_counts, mobility_features, get_pawn_development E b'), b'))"

section \<open>Evaluation\<close>

definition material :: "nat list \<Rightarrow> real" where
  "material piece_counts =
     foldl (\<lambda>valuation (piece_index, piece_count). valuation + real piece_count * piece_values ! piece_index)
       0 (enumerate 0 piece_counts)"

definition heuristic_valuation ::
  "'p rules \<Rightarrow> chessai \<Rightarrow> 'p board \<Rightarrow> (error + real) \<times> chessai \<times> 'p board" where
  "heuristic_valuation E ai b =
     (let position_hash = zobrist_hash E (position b) in
      case position_cache ai position_hash of
        Some cached \<Rightarrow> (Inr cached, ai, b)
      | None \<Rightarrow>
          (case get_heuristic_features E b of
             (Inl e, b') \<Rightarrow> (Inl e, ai, b')
           | (Inr (piece_counts, (wm, bm, we, be), (wp, bp)), b') \<Rightarrow>
               let valuation = material piece_counts
                     + (mobility_weight * (real wm * we - real bm * be)
                        + pawn_development_weight * (real wp - real bp))
               in (Inr valuation,
                   ai\<lparr>position_cache := (position_cache ai)(position_hash \<mapsto> valuation)\<rparr>, b')))"

definition evaluate_move ::
  "'p rules \<Rightarrow> chessai \<Rightarrow> 'p board \<Rightarrow> move \<Rightarrow> (error + real) \<times> chessai \<times> 'p board" where
  "evaluate_move E ai b m =
     (case heuristic_valuation E ai (push E m b) of
        (Inl e, ai', b') \<Rightarrow> (Inl e, ai', b')
      | (Inr valuation, ai', b') \<Rightarrow>
          (case pop b' of
             Inl e \<Rightarrow> (Inl e, ai', b')
           | Inr (m', b'') \<Rightarrow> (Inr valuation, ai', b'')))"


text \<open>
  \<^verbatim>\<open>get_model_features\<close> counts the pieces and then calls \<^verbatim>\<open>self.get_mobility\<close>, a
  method that \<^verbatim>\<open>ChessAI\<close> does not define: the attribute lookup raises
  \<^verbatim>\<open>AttributeError\<close>. \<^verbatim>\<open>model_valuation\<close> reads \<^verbatim>\<open>self.model\<close>, which is unset when no
  model was loaded, and calls its \<^verbatim>\<open>predict_proba\<close>, which only a classifier has.
\<close>

definition get_model_features :: "'p rules \<Rightarrow> chessai \<Rightarrow> 'p board \<Rightarrow> error + real list" where
  "get_model_features E ai b = (let piece_counts = count_pieces E b in Inl AttributeError)"

definition model_valuation :: "'p rules \<Rightarrow> chessai \<Rightarrow> 'p board \<Rightarrow> error + real" where
  "model_valuation E ai b =
     (case get_model_features E ai b of
        Inl e \<Rightarrow> Inl e
      | Inr features \<Rightarrow>
          (case model ai of
             None \<Rightarrow> Inl AttributeError
           | Some (Classifier predict_proba) \<Rightarrow> Inr (predict_proba features)
           | Some _ \<Rightarrow> Inl AttributeError))"

section \<open>Alpha-beta search\<close>

text \<open>
  \<^verbatim>\<open>sorted\<close> first collects the legal moves, then calls the key function
  \<^verbatim>\<open>evaluate_move\<close> once on each move in list order, and sorts stably; with
  \<^verbatim>\<open>reverse=True\<close> the order is descending and moves with equal keys keep their order.
\<close>

fun sort_keys ::
  "'p rules \<Rightarrow> chessai \<Rightarrow> 'p board \<Rightarrow> move list \<Rightarrow> (error + real list) \<times> chessai \<times> 'p board" where
  "sort_keys E ai b [] = (Inr [], ai, b)"
| "sort_keys E ai b (m # ms) =
     (case evaluate_move E ai b m of
        (Inl e, ai', b') \<Rightarrow> (Inl e, ai', b')
      | (Inr k, ai', b') \<Rightarrow>
          (case sort_keys E ai' b' ms of
             (Inl e, ai'', b'') \<Rightarrow> (Inl e, ai'', b'')
           | (Inr ks, ai'', b'') \<Rightarrow> (Inr (k # ks), ai'', b'')))"

definition sorted_moves ::
  "'p rules \<Rightarrow> bool \<Rightarrow> chessai \<Rightarrow> 'p board \<Rightarrow> (error + move list) \<times> chessai \<times> 'p board" where
  "sorted_moves E reverse ai b =
     (let moves = legal_moves E (position b) in
      case sort_keys E ai b moves of
        (Inl e, ai', b') \<Rightarrow> (Inl e, ai', b')
      | (Inr keys, ai', b') \<Rightarrow>
          (Inr (map snd (sort_key (\<lambda>(k, m). if reverse then - k else k) (zip keys moves))), ai', b'))"

text \<open>
  The result of a search call: \<open>None\<close> when the recursion does not come to an end within
  the fuel; otherwise the exception raised or the value returned (Python's \<^verbatim>\<open>None\<close> when
  no branch of \<^verbatim>\<open>alpha_beta_search\<close> applies), with the engine and the board as the call
  leaves them.
\<close>

type_synonym 'p search_result = "((error + pyfloat option) \<times> chessai \<times> 'p board) option"

text \<open>
  The loop of the maximizing branch over the sorted moves; \<open>rec\<close> is the recursive call
  for the opponent at \<^verbatim>\<open>depth-1\<close>. Comparing \<^verbatim>\<open>None\<close> with a float raises
  \<^verbatim>\<open>TypeError\<close>.
\<close>

fun white_loop ::
  "'p rules \<Rightarrow> (chessai \<Rightarrow> 'p board \<Rightarrow> pyfloat \<Rightarrow> pyfloat \<Rightarrow> 'p search_result) \<Rightarrow>
     chessai \<Rightarrow> 'p board \<Rightarrow> pyfloat \<Rightarrow> pyfloat \<Rightarrow> move list \<Rightarrow> 'p search_result" where
  "white_loop E rec ai b alpha beta [] = Some (Inr (Some alpha), ai, b)"
| "white_loop E rec ai b alpha beta (m # ms) =
     (case rec ai (push E m b) alpha beta of
        None \<Rightarrow> None
      | Some (Inl e, ai', b') \<Rightarrow> Some (Inl e, ai', b')
      | Some (Inr r, ai', b') \<Rightarrow>
          (case pop b' of
             Inl e \<Rightarrow> Some (Inl e, ai', b')
           | Inr (m', b'') \<Rightarrow>
               (case r of
                  None \<Rightarrow> Some (Inl TypeError, ai', b'')
                | Some v \<Rightarrow>
                    let alpha' = (if v > alpha then v else alpha) in
                    if alpha' \<ge> beta then Some (Inr (Some alpha'), ai', b'')
                    else white_loop E rec ai' b'' alpha' beta ms)))"

fun black_loop ::
  "'p rules \<Rightarrow> (chessai \<Rightarrow> 'p board \<Rightarrow> pyfloat \<Rightarrow> pyfloat \<Rightarrow> 'p search_result) \<Rightarrow>
     chessai \<Rightarrow> 'p board \<Rightarrow> pyfloat \<Rightarrow> pyfloat \<Rightarrow> move list \<Rightarrow> 'p search_result" where
  "black_loop E rec ai b alpha beta [] = Some (Inr (Some beta), ai, b)"
| "black_loop E rec ai b alpha beta (m # ms) =
     (case rec ai (push E m b) alpha beta of
        None \<Rightarrow> None
      | Some (Inl e, ai', b') \<Rightarrow> Some (Inl e, ai', b')
      | Some (Inr r, ai', b') \<Rightarrow>
          (case pop b' of
             Inl e \<Rightarrow> Some (Inl e, ai', b')
           | Inr (m', b'') \<Rightarrow>
               (case r of
                  None \<Rightarrow> Some (Inl TypeError, ai', b'')
                | Some v \<Rightarrow>
                    let beta' = (if v < beta then v else beta) in
                    if alpha \<ge> beta' then Some (Inr (Some beta'), ai', b'')
                    else black_loop E rec ai' b'' alpha beta' ms)))"

text \<open>
  \<^verbatim>\<open>alpha_beta_search\<close>. The depth is a Python integer; a call with a negative depth
  never meets \<^verbatim>\<open>depth == 0\<close>, so the recursion is bounded by fuel (one unit for each
  nested call).
\<close>

primrec alpha_beta_search ::
  "nat \<Rightarrow> 'p rules \<Rightarrow> chessai \<Rightarrow> 'p board \<Rightarrow> pyfloat \<Rightarrow> pyfloat \<Rightarrow> string \<Rightarrow> int \<Rightarrow>
     'p search_result" where
  "alpha_beta_search 0 E ai b alpha beta player depth = None"
| "alpha_beta_search (Suc fuel) E ai b alpha beta player depth =
     (if depth = 0 then
        (case heuristic_valuation E ai b of
           (Inl e, ai', b') \<Rightarrow> Some (Inl e, ai', b')
         | (Inr v, ai', b') \<Rightarrow> Some (Inr (Some (Fin v)), ai', b'))
      else if player = ''White'' then
        (case sorted_moves E True ai b of
           (Inl e, ai', b') \<Rightarrow> Some (Inl e, ai', b')
         | (Inr moves, ai', b') \<Rightarrow>
             white_loop E (\<lambda>ai b alpha beta. alpha_beta_search fuel E ai b alpha beta ''Black'' (depth - 1))
               ai' b' alpha beta moves)
      else if player = ''Black'' then
        (case sorted_moves E False ai b of
           (Inl e, ai', b') \<Rightarrow> Some (Inl e, ai', b')
         | (Inr moves, ai', b') \<Rightarrow>
             black_loop E (\<lambda>ai b alpha beta. alpha_beta_search fuel E ai b alpha beta ''White'' (depth - 1))
               ai' b' alpha beta moves)
      else Some (Inr None, ai, b))"

section \<open>Persistence and move selection\<close>

text \<open>
  The files the engine reads: a path holds a pickled object, or a file whose opening or
  unpickling raises an exception (\<^verbatim>\<open>EOFError\<close> for an empty file,
  \<^verbatim>\<open>UnpicklingError\<close> for damaged bytes, \<^verbatim>\<open>OSError\<close> for a directory or a file that
  may not be read). No file has the empty path.
\<close>

datatype file_content = Pickle pyobject | Raises error

type_synonym files = "string \<rightharpoonup> file_content"

definition file_at :: "files \<Rightarrow> string \<Rightarrow> file_content option" where
  "file_at fs path = (if path = [] then None else fs path)"

definition load :: "file_content \<Rightarrow> error + pyobject" where
  "load f = (case f of Pickle obj \<Rightarrow> Inr obj | Raises e \<Rightarrow> Inl e)"

text \<open>
  Writing: \<^verbatim>\<open>open(path,'wb')\<close> raises \<^verbatim>\<open>OSError\<close> for the empty path and for a path
  that cannot be opened for writing (a missing directory, a directory, no permission);
  when the file is opened it is emptied, and the write itself can still fail (a full
  disk), which leaves the empty file.
\<close>

datatype write_access = CanWrite | CannotOpen | CannotWrite

record storage =
  contents :: files
  access :: "string \<Rightarrow> write_access"

definition save_position_cache :: "storage \<Rightarrow> chessai \<Rightarrow> (error + unit) \<times> storage" where
  "save_position_cache st ai =
     (if cache_path ai = [] then (Inl OSError, st)
      else (case access st (cache_path ai) of
              CannotOpen \<Rightarrow> (Inl OSError, st)
            | CannotWrite \<Rightarrow>
                (Inl OSError, st\<lparr>contents := (contents st)(cache_path ai \<mapsto> Raises EOFError)\<rparr>)
            | CanWrite \<Rightarrow>
                (Inr (), st\<lparr>contents := (contents st)
                   (cache_path ai \<mapsto> Pickle (Dictionary (position_cache ai)))\<rparr>)))"

text \<open>
  \<^verbatim>\<open>__init__\<close> returns the object it has set up and the lines printed. The cache
  attribute is the empty dictionary when no file exists at the cache path, and the
  unpickled object otherwise, whatever it is; when it is not a dictionary the object is
  not an engine of this model, and the object found is kept with the cache path and the
  model attribute. A model path is used when it is truthy: neither \<^verbatim>\<open>None\<close> nor the empty string.
\<close>

datatype constructed = Engine chessai | ForeignCache pyobject string "pyobject option"

definition construct :: "pyobject \<Rightarrow> string \<Rightarrow> pyobject option \<Rightarrow> constructed" where
  "construct cache cpath mdl =
     (case cache of
        Dictionary c \<Rightarrow> Engine \<lparr>position_cache = c, cache_path = cpath, model = mdl\<rparr>
      | _ \<Rightarrow> ForeignCache cache cpath mdl)"

definition init :: "files \<Rightarrow> string \<Rightarrow> string option \<Rightarrow> (error + constructed) \<times> string list" where
  "init fs cpath model_path =
     (case (case file_at fs cpath of
              None \<Rightarrow> Inr (Dictionary Map.empty)
            | Some f \<Rightarrow> load f) of
        Inl e \<Rightarrow> (Inl e, [])
      | Inr cache \<Rightarrow>
          (case model_path of
             None \<Rightarrow> (Inr (construct cache cpath None), [])
           | Some path \<Rightarrow>
               if path = [] then (Inr (construct cache cpath None), [])
               else (case file_at fs path of
                       None \<Rightarrow>
                         (Inr (construct cache cpath None),
                          [''ERROR. Model not found. Please check model path again.''])
                     | Some f \<Rightarrow>
                         (case load f of
                            Inl e \<Rightarrow> (Inl e, [])
                          | Inr mdl \<Rightarrow> (Inr (construct cache cpath (Some mdl)), [])))))"

text \<open>
  \<^verbatim>\<open>move_optimization\<close>: the loop over the legal moves keeps the smallest value seen
  and its move; \<open>None\<close> stands for the initial empty string of \<^verbatim>\<open>opt_move\<close>, and
  \<^verbatim>\<open>min_value\<close> starts at \<^verbatim>\<open>1.0e10\<close>. The searcher is always called with the player
  \<^verbatim>\<open>'White'\<close> and with the caller's alpha and beta. The loop draws the moves from the
  library's generator while it pushes and pops; the model takes the list of legal moves
  at the start, which is the same whenever each iteration leaves the board as it found it.
  The cache is saved when the loop has ended without an exception; when saving raises, no
  move is returned.
\<close>

fun optimization_loop ::
  "'p rules \<Rightarrow> (chessai \<Rightarrow> 'p board \<Rightarrow> 'p search_result) \<Rightarrow> chessai \<Rightarrow> 'p board \<Rightarrow>
     pyfloat \<Rightarrow> move option \<Rightarrow> move list \<Rightarrow> ((error + move option) \<times> chessai \<times> 'p board) option" where
  "optimization_loop E search ai b min_value opt_move [] = Some (Inr opt_move, ai, b)"
| "optimization_loop E search ai b min_value opt_move (m # ms) =
     (case search ai (push E m b) of
        None \<Rightarrow> None
      | Some (Inl e, ai', b') \<Rightarrow> Some (Inl e, ai', b')
      | Some (Inr r, ai', b') \<Rightarrow>
          (case pop b' of
             Inl e \<Rightarrow> Some (Inl e, ai', b')
           | Inr (m', b'') \<Rightarrow>
               (case r of
                  None \<Rightarrow> Some (Inl TypeError, ai', b'')
                | Some v \<Rightarrow>
                    if v < min_value then optimization_loop E search ai' b'' v (Some m) ms
                    else optimization_loop E search ai' b'' min_value opt_move ms)))"

definition move_optimization ::
  "nat \<Rightarrow> 'p rules \<Rightarrow> storage \<Rightarrow> chessai \<Rightarrow> 'p board \<Rightarrow> pyfloat \<Rightarrow> pyfloat \<Rightarrow> int \<Rightarrow>
     ((error + move option) \<times> storage \<times> chessai \<times> 'p board) option" where
  "move_optimization fuel E fs ai b alpha beta depth =
     (case optimization_loop E
             (\<lambda>ai b. alpha_beta_search fuel E ai b alpha beta ''White'' (depth - 1))
             ai b (Fin 10000000000) None (legal_moves E (position b)) of
        None \<Rightarrow> None
      | Some (Inl e, ai', b') \<Rightarrow> Some (Inl e, fs, ai', b')
      | Some (Inr opt_move, ai', b') \<Rightarrow>
          (case save_position_cache fs ai' of
             (Inl e, fs') \<Rightarrow> Some (Inl e, fs', ai', b')
           | (Inr u, fs') \<Rightarrow> Some (Inr opt_move, fs', ai', b')))"


section \<open>The standard starting position\<close>

text \<open>
  What the rules engine reports at the standard starting position, at the same position
  with Black to move, after the first move e2e4, and there with White to move again: the
  squares of the pieces (a1 is
  square 0, h8 is square 63; piece types 1 to 6 are pawn, knight, bishop, rook, queen and
  king), the legal moves in the order the library generates them, and the polyglot hash
  keys. Every other position is lumped into \<open>Elsewhere\<close>, which none of the evaluations
  below reads.
\<close>

datatype opening_position = Start | StartBlack | AfterE4 | AfterE4White | Elsewhere

definition mv :: "nat \<Rightarrow> nat \<Rightarrow> move" where
  "mv f t = \<lparr>from_square = f, to_square = t, promotion = None\<rparr>"

definition white_first_moves :: "move list" where
  "white_first_moves =
     [mv 6 23, mv 6 21, mv 1 18, mv 1 16,
      mv 15 23, mv 14 22, mv 13 21, mv 12 20,
      mv 11 19, mv 10 18, mv 9 17, mv 8 16,
      mv 15 31, mv 14 30, mv 13 29, mv 12 28,
      mv 11 27, mv 10 26, mv 9 25, mv 8 24]"

definition black_first_moves :: "move list" where
  "black_first_moves =
     [mv 62 47, mv 62 45, mv 57 42, mv 57 40,
      mv 55 47, mv 54 46, mv 53 45, mv 52 44,
      mv 51 43, mv 50 42, mv 49 41, mv 48 40,
      mv 55 39, mv 54 38, mv 53 37, mv 52 36,
      mv 51 35, mv 50 34, mv 49 33, mv 48 32]"

definition white_second_moves :: "move list" where
  "white_second_moves =
     [mv 6 23, mv 6 21, mv 6 12,
      mv 5 40, mv 5 33, mv 5 26, mv 5 19, mv 5 12,
      mv 4 12,
      mv 3 39, mv 3 30, mv 3 21, mv 3 12,
      mv 1 18, mv 1 16,
      mv 28 36, mv 15 23, mv 14 22, mv 13 21,
      mv 11 19, mv 10 18, mv 9 17, mv 8 16,
      mv 15 31, mv 14 30, mv 13 29,
      mv 11 27, mv 10 26, mv 9 25, mv 8 24]"

definition start_pieces :: "nat \<Rightarrow> bool \<Rightarrow> nat list" where
  "start_pieces piece_type colour =
     (if colour then
        (if piece_type = 1 then [8, 9, 10, 11, 12, 13, 14, 15]
         else if piece_type = 2 then [1, 6]
         else if piece_type = 3 then [2, 5]
         else if piece_type = 4 then [0, 7]
         else if piece_type = 5 then [3]
         else if piece_type = 6 then [4]
         else [])
      else
        (if piece_type = 1 then [48, 49, 50, 51, 52, 53, 54, 55]
         else if piece_type = 2 then [57, 62]
         else if piece_type = 3 then [58, 61]
         else if piece_type = 4 then [56, 63]
         else if piece_type = 5 then [59]
         else if piece_type = 6 then [60]
         else []))"

definition python_chess_opening :: "opening_position rules" where
  "python_chess_opening =
     \<lparr>legal_moves = (\<lambda>p. case p of
          Start \<Rightarrow> white_first_moves
        | StartBlack \<Rightarrow> black_first_moves
        | AfterE4 \<Rightarrow> black_first_moves
        | AfterE4White \<Rightarrow> white_second_moves
        | Elsewhere \<Rightarrow> []),
      make_move = (\<lambda>p m. case p of
          Start \<Rightarrow> (if m = null then StartBlack else if m = mv 12 28 then AfterE4 else Elsewhere)
        | StartBlack \<Rightarrow> (if m = null then Start else Elsewhere)
        | AfterE4 \<Rightarrow> (if m = null then AfterE4White else Elsewhere)
        | AfterE4White \<Rightarrow> (if m = null then AfterE4 else Elsewhere)
        | Elsewhere \<Rightarrow> Elsewhere),
      pieces = (\<lambda>p piece_type colour. case p of
          Start \<Rightarrow> start_pieces piece_type colour
        | StartBlack \<Rightarrow> start_pieces piece_type colour
        | AfterE4 \<Rightarrow>
            (if colour \<and> piece_type = 1 then [8, 9, 10, 11, 13, 14, 15, 28]
             else start_pieces piece_type colour)
        | AfterE4White \<Rightarrow>
            (if colour \<and> piece_type = 1 then [8, 9, 10, 11, 13, 14, 15, 28]
             else start_pieces piece_type colour)
        | Elsewhere \<Rightarrow> []),
      turn = (\<lambda>p. case p of
          Start \<Rightarrow> True | StartBlack \<Rightarrow> False | AfterE4 \<Rightarrow> False | AfterE4White \<Rightarrow> True
        | Elsewhere \<Rightarrow> True),
      zobrist_hash = (\<lambda>p. case p of
          Start \<Rightarrow> 5060803636482931868
        | StartBlack \<Rightarrow> 13757846718353144213
        | AfterE4 \<Rightarrow> 9384546495678726550
        | AfterE4White \<Rightarrow> 8857100499996296351
        | Elsewhere \<Rightarrow> 0)\<rparr>"

definition new_board :: "'p \<Rightarrow> 'p board" where
  "new_board p = \<lparr>position = p, stack = []\<rparr>"

definition fresh_engine :: chessai where
  "fresh_engine = \<lparr>position_cache = Map.empty, cache_path = ''cache.pkl'', model = None\<rparr>"

text \<open>A storage without files in which every path can be written, and one in which none can.\<close>

definition empty_storage :: storage where
  "empty_storage = \<lparr>contents = Map.empty, access = (\<lambda>path. CanWrite)\<rparr>"



definition standard_start :: "'p rules \<Rightarrow> 'p \<Rightarrow> bool" where
  "standard_start E p \<longleftrightarrow>
     turn E p
     \<and> map (\<lambda>piece_type. pieces E p piece_type True) [1..<7]
         = map (\<lambda>piece_type. start_pieces piece_type True) [1..<7]
     \<and> map (\<lambda>piece_type. pieces E p piece_type False) [1..<7]
         = map (\<lambda>piece_type. start_pieces piece_type False) [1..<7]
     \<and> get_move_starts (legal_moves E p) = get_move_starts white_first_moves
     \<and> get_move_starts (legal_moves E (make_move E p null)) = get_move_starts black_first_moves"

section \<open>Reference notions\<close>

text \<open>
  The concentration statistic in the words of the specification: the product, over the
  distinct origin squares of a side's legal moves, of the number of moves from that square.
\<close>

definition concentration :: "move list \<Rightarrow> real" where
  "concentration moves =
     (let starts = map from_square moves
      in prod_list (map (\<lambda>s. real (count_list starts s)) (remdups starts)))"

text \<open>
  The exhaustive minimax traversal in the words of the specification: no ordering and no
  cutoff, every legal move made, searched one ply less for the opponent and undone; the
  leaves are scored by the same heuristic evaluation on the same engine and board. A
  maximizing node without moves has the value minus infinity, a minimizing one plus
  infinity.
\<close>

fun minimax_children ::
  "'p rules \<Rightarrow> (chessai \<Rightarrow> 'p board \<Rightarrow> (error + pyfloat) \<times> chessai \<times> 'p board) \<Rightarrow> bool \<Rightarrow>
     chessai \<Rightarrow> 'p board \<Rightarrow> pyfloat \<Rightarrow> move list \<Rightarrow> (error + pyfloat) \<times> chessai \<times> 'p board" where
  "minimax_children E rec maximizing ai b best [] = (Inr best, ai, b)"
| "minimax_children E rec maximizing ai b best (m # ms) =
     (case rec ai (push E m b) of
        (Inl e, ai', b') \<Rightarrow> (Inl e, ai', b')
      | (Inr v, ai', b') \<Rightarrow>
          (case pop b' of
             Inl e \<Rightarrow> (Inl e, ai', b')
           | Inr (m', b'') \<Rightarrow>
               minimax_children E rec maximizing ai' b''
                 (if maximizing then max best v else min best v) ms))"

primrec exhaustive_minimax ::
  "nat \<Rightarrow> 'p rules \<Rightarrow> bool \<Rightarrow> chessai \<Rightarrow> 'p board \<Rightarrow> (error + pyfloat) \<times> chessai \<times> 'p board" where
  "exhaustive_minimax 0 E maximizing ai b =
     (case heuristic_valuation E ai b of
        (Inl e, ai', b') \<Rightarrow> (Inl e, ai', b')
      | (Inr v, ai', b') \<Rightarrow> (Inr (Fin v), ai', b'))"
| "exhaustive_minimax (Suc d) E maximizing ai b =
     minimax_children E (\<lambda>ai b. exhaustive_minimax d E (\<not> maximizing) ai b) maximizing ai b
       (if maximizing then NegInf else PosInf) (legal_moves E (position b))"

text \<open>
  The same traversal with the move ordering of the search and without its cutoff: the
  moves are sorted as \<^verbatim>\<open>alpha_beta_search\<close> sorts them, and every one is searched.
\<close>

primrec ordered_minimax ::
  "nat \<Rightarrow> 'p rules \<Rightarrow> bool \<Rightarrow> chessai \<Rightarrow> 'p board \<Rightarrow> (error + pyfloat) \<times> chessai \<times> 'p board" where
  "ordered_minimax 0 E maximizing ai b =
     (case heuristic_valuation E ai b of
        (Inl e, ai', b') \<Rightarrow> (Inl e, ai', b')
      | (Inr v, ai', b') \<Rightarrow> (Inr (Fin v), ai', b'))"
| "ordered_minimax (Suc d) E maximizing ai b =
     (case sorted_moves E maximizing ai b of
        (Inl e, ai', b') \<Rightarrow> (Inl e, ai', b')
      | (Inr moves, ai', b') \<Rightarrow>
          minimax_children E (\<lambda>ai b. ordered_minimax d E (\<not> maximizing) ai b) maximizing ai' b'
            (if maximizing then NegInf else PosInf) moves)"

text \<open>
  The minimax value of a position when every leaf has a value that depends on its hash
  only.
\<close>

primrec minimax_value :: "nat \<Rightarrow> 'p rules \<Rightarrow> (int \<Rightarrow> real) \<Rightarrow> bool \<Rightarrow> 'p \<Rightarrow> pyfloat" where
  "minimax_value 0 E leaf maximizing p = Fin (leaf (zobrist_hash E p))"
| "minimax_value (Suc d) E leaf maximizing p =
     (if maximizing
      then fold max (map (\<lambda>m. minimax_value d E leaf False (make_move E p m)) (legal_moves E p)) NegInf
      else fold min (map (\<lambda>m. minimax_value d E leaf True (make_move E p m)) (legal_moves E p)) PosInf)"

text \<open>
  The cache agrees with a leaf function when every cached value is the function's value
  at its key. The heuristic is determined by a leaf function down to \<open>d\<close> plies below a
  position when every position reached from it by at most \<open>d\<close> legal moves, evaluated
  afresh on the board on which its last move was made, gets the function's value at its
  hash.
\<close>

definition cache_agrees :: "chessai \<Rightarrow> (int \<Rightarrow> real) \<Rightarrow> bool" where
  "cache_agrees ai leaf \<longleftrightarrow> (\<forall>h v. position_cache ai h = Some v \<longrightarrow> v = leaf h)"

primrec leaf_determined :: "nat \<Rightarrow> 'p rules \<Rightarrow> (int \<Rightarrow> real) \<Rightarrow> 'p \<Rightarrow> bool" where
  "leaf_determined 0 E leaf p = True"
| "leaf_determined (Suc d) E leaf p =
     (\<forall>m \<in> set (legal_moves E p).
        fst (heuristic_valuation E fresh_engine (push E m (new_board p)))
          = Inr (leaf (zobrist_hash E (make_move E p m)))
        \<and> leaf_determined d E leaf (make_move E p m))"

text \<open>
  A search result \<open>r\<close> agrees with the true value \<open>v\<close> in the window from \<open>alpha\<close> to
  \<open>beta\<close>: it is the true value when that lies inside the window, and lies on the same
  side of the window otherwise.
\<close>

definition agrees_in_window :: "pyfloat \<Rightarrow> pyfloat \<Rightarrow> pyfloat \<Rightarrow> pyfloat \<Rightarrow> bool" where
  "agrees_in_window r v alpha beta \<longleftrightarrow>
     (v \<le> alpha \<longrightarrow> r \<le> alpha) \<and> (alpha < v \<and> v < beta \<longrightarrow> r = v) \<and> (beta \<le> v \<longrightarrow> beta \<le> r)"



text \<open>The board that \<^verbatim>\<open>pop\<close> would restore, if any.\<close>

definition undone :: "'p board \<Rightarrow> 'p board option" where
  "undone b = (case pop b of Inl e \<Rightarrow> None | Inr (m, b') \<Rightarrow> Some b')"

section \<open>A small game\<close>

text \<open>
  A rules engine with seven positions, for running the search by hand. From \<open>Root\<close>
  (Black to move) one move leads to \<open>NodeA\<close> and one to \<open>NodeB\<close> (White to move).
  From \<open>NodeA\<close> the only move leads to \<open>LeafX\<close>; from \<open>NodeB\<close> two moves of the
  same piece lead to \<open>LeafY\<close> and, when \<open>shared\<close> holds, to \<open>LeafX\<close> as well (a
  transposition), and to \<open>LeafZ\<close> otherwise. The three leaves are positions with Black
  to move and without legal moves, and every null move leads to \<open>Pass\<close>. \<open>NodeA\<close>
  holds one white pawn, \<open>LeafX\<close> and \<open>LeafZ\<close> three.
\<close>

datatype game_position = Root | NodeA | NodeB | LeafX | LeafY | LeafZ | Pass

definition small_game :: "bool \<Rightarrow> game_position rules" where
  "small_game shared =
     \<lparr>legal_moves = (\<lambda>p. case p of
          Root \<Rightarrow> [mv 0 1, mv 0 2]
        | NodeA \<Rightarrow> [mv 1 3]
        | NodeB \<Rightarrow> [mv 2 3, mv 2 4]
        | _ \<Rightarrow> []),
      make_move = (\<lambda>p m.
          if m = null then Pass
          else (case p of
            Root \<Rightarrow> (if m = mv 0 1 then NodeA else if m = mv 0 2 then NodeB else Pass)
          | NodeA \<Rightarrow> (if m = mv 1 3 then LeafX else Pass)
          | NodeB \<Rightarrow>
              (if m = mv 2 3 then (if shared then LeafX else LeafZ)
               else if m = mv 2 4 then LeafY else Pass)
          | _ \<Rightarrow> Pass)),
      pieces = (\<lambda>p piece_type colour.
          if piece_type = 1 \<and> colour then
            (case p of NodeA \<Rightarrow> [0] | LeafX \<Rightarrow> [0, 1, 2] | LeafZ \<Rightarrow> [0, 1, 2] | _ \<Rightarrow> [])
          else []),
      turn = (\<lambda>p. case p of NodeA \<Rightarrow> True | NodeB \<Rightarrow> True | Pass \<Rightarrow> True | _ \<Rightarrow> False),
      zobrist_hash = (\<lambda>p. case p of
          Root \<Rightarrow> 10 | NodeA \<Rightarrow> 11 | NodeB \<Rightarrow> 12 | LeafX \<Rightarrow> 13 | LeafY \<Rightarrow> 14
        | LeafZ \<Rightarrow> 15 | Pass \<Rightarrow> 16)\<rparr>"

text \<open>
  A second game on the same positions, with a hash collision instead of a transposition.
  Here White is to move at \<open>Root\<close>, Black at \<open>NodeA\<close> and \<open>NodeB\<close>, and White at
  the leaves. \<open>NodeA\<close> leads to \<open>LeafX\<close> (three white pawns), \<open>NodeB\<close> to \<open>LeafZ\<close>
  (one white pawn) and to \<open>LeafY\<close> (none); \<open>NodeB\<close> itself holds one white pawn. The
  different positions \<open>LeafX\<close> and \<open>LeafZ\<close> have the same hash.
\<close>

definition collision_game :: "game_position rules" where
  "collision_game =
     \<lparr>legal_moves = (\<lambda>p. case p of
          Root \<Rightarrow> [mv 0 1, mv 0 2]
        | NodeA \<Rightarrow> [mv 1 3]
        | NodeB \<Rightarrow> [mv 2 3, mv 2 4]
        | _ \<Rightarrow> []),
      make_move = (\<lambda>p m.
          if m = null then Pass
          else (case p of
            Root \<Rightarrow> (if m = mv 0 1 then NodeA else if m = mv 0 2 then NodeB else Pass)
          | NodeA \<Rightarrow> (if m = mv 1 3 then LeafX else Pass)
          | NodeB \<Rightarrow> (if m = mv 2 3 then LeafZ else if m = mv 2 4 then LeafY else Pass)
          | _ \<Rightarrow> Pass)),
      pieces = (\<lambda>p piece_type colour.
          if piece_type = 1 \<and> colour then
            (case p of NodeB \<Rightarrow> [0] | LeafX \<Rightarrow> [0, 1, 2] | LeafZ \<Rightarrow> [0] | _ \<Rightarrow> [])
          else []),
      turn = (\<lambda>p. case p of NodeA \<Rightarrow> False | NodeB \<Rightarrow> False | _ \<Rightarrow> True),
      zobrist_hash = (\<lambda>p. case p of
          Root \<Rightarrow> 10 | NodeA \<Rightarrow> 11 | NodeB \<Rightarrow> 12 | LeafX \<Rightarrow> 13 | LeafY \<Rightarrow> 14
        | LeafZ \<Rightarrow> 13 | Pass \<Rightarrow> 16)\<rparr>"

text \<open>
  A game of three plies in which a cutoff decides what the cache holds. Black is to move
  at \<open>Top\<close>, White at \<open>Ca\<close>, \<open>Cb\<close> and \<open>Cc\<close>, Black at \<open>Ga\<close>, \<open>Gb1\<close>,
  \<open>Gb2\<close> and \<open>Gc\<close>, and White at the leaves \<open>La\<close>, \<open>Lb1\<close>, \<open>Lb2\<close> and
  \<open>Lc\<close>, which have no legal moves. A move goes from the square numbered like its
  position to the square numbered like the position it leads to; every null move leads to
  \<open>Off\<close>. The positions hold white pawns only: \<open>Cb\<close> one, \<open>Cc\<close> two, \<open>La\<close>
  two, \<open>Lb1\<close> three, \<open>Lb2\<close> one and the others none. The different leaves \<open>Lb2\<close>
  and \<open>Lc\<close> have the same hash.
\<close>

datatype pruning_position =
  Top | Ca | Cb | Cc | Ga | Gb1 | Gb2 | Gc | La | Lb1 | Lb2 | Lc | Off

definition pruning_game :: "pruning_position rules" where
  "pruning_game =
     \<lparr>legal_moves = (\<lambda>p. case p of
          Top \<Rightarrow> [mv 0 1, mv 0 2, mv 0 3]
        | Ca \<Rightarrow> [mv 1 4]
        | Cb \<Rightarrow> [mv 2 5, mv 2 6]
        | Cc \<Rightarrow> [mv 3 7]
        | Ga \<Rightarrow> [mv 4 8]
        | Gb1 \<Rightarrow> [mv 5 9]
        | Gb2 \<Rightarrow> [mv 6 10]
        | Gc \<Rightarrow> [mv 7 11]
        | _ \<Rightarrow> []),
      make_move = (\<lambda>p m.
          if m = null then Off
          else (case p of
            Top \<Rightarrow> (if m = mv 0 1 then Ca else if m = mv 0 2 then Cb
                    else if m = mv 0 3 then Cc else Off)
          | Ca \<Rightarrow> (if m = mv 1 4 then Ga else Off)
          | Cb \<Rightarrow> (if m = mv 2 5 then Gb1 else if m = mv 2 6 then Gb2 else Off)
          | Cc \<Rightarrow> (if m = mv 3 7 then Gc else Off)
          | Ga \<Rightarrow> (if m = mv 4 8 then La else Off)
          | Gb1 \<Rightarrow> (if m = mv 5 9 then Lb1 else Off)
          | Gb2 \<Rightarrow> (if m = mv 6 10 then Lb2 else Off)
          | Gc \<Rightarrow> (if m = mv 7 11 then Lc else Off)
          | _ \<Rightarrow> Off)),
      pieces = (\<lambda>p piece_type colour.
          if piece_type = 1 \<and> colour then
            (case p of
               Cb \<Rightarrow> [0] | Cc \<Rightarrow> [0, 1] | La \<Rightarrow> [0, 1] | Lb1 \<Rightarrow> [0, 1, 2] | Lb2 \<Rightarrow> [0]
             | _ \<Rightarrow> [])
          else []),
      turn = (\<lambda>p. case p of
          Top \<Rightarrow> False | Ga \<Rightarrow> False | Gb1 \<Rightarrow> False | Gb2 \<Rightarrow> False | Gc \<Rightarrow> False
        | _ \<Rightarrow> True),
      zobrist_hash = (\<lambda>p. case p of
          Top \<Rightarrow> 20 | Ca \<Rightarrow> 21 | Cb \<Rightarrow> 22 | Cc \<Rightarrow> 23 | Ga \<Rightarrow> 24 | Gb1 \<Rightarrow> 25
        | Gb2 \<Rightarrow> 26 | Gc \<Rightarrow> 27 | La \<Rightarrow> 28 | Lb1 \<Rightarrow> 29 | Lb2 \<Rightarrow> 30 | Lc \<Rightarrow> 30
        | Off \<Rightarrow> 31)\<rparr>"

text \<open>
  The values of the positions of the small game without the transposition, by hash.
\<close>

definition tree_leaf :: "int \<Rightarrow> real" where
  "tree_leaf h =
     (if h = 11 then 1.1 else if h = 12 then 0.4 else if h = 13 then 3.1
      else if h = 14 then 0.4 else if h = 15 then 3.4 else 0)"

section \<open>Auxiliary facts on the features\<close>

lemmas opening_defs = python_chess_opening_def new_board_def start_pieces_def
  white_first_moves_def black_first_moves_def mv_def null_def

lemmas value_defs = piece_values_def white_piece_values_def black_piece_values_def
  mobility_weight_def pawn_development_weight_def

lemma piece_indices_list: "piece_indices = [1, 2, 3, 4, 5]"
  unfolding piece_indices_def by (simp add: upt_conv_Cons flip: numeral_eq_Suc)

lemma count_pieces_unfold:
  "count_pieces E b =
     [length (pieces E (position b) 1 True), length (pieces E (position b) 2 True),
      length (pieces E (position b) 3 True), length (pieces E (position b) 4 True),
      length (pieces E (position b) 5 True),
      length (pieces E (position b) 1 False), length (pieces E (position b) 2 False),
      length (pieces E (position b) 3 False), length (pieces E (position b) 4 False),
      length (pieces E (position b) 5 False)]"
  by (simp add: count_pieces_def piece_indices_list)

lemma material_ten:
  "material [a, b, c, d, e, f, g, h, i, j] =
     real a * 1 + real b * 3 + real c * 3.3 + real d * 4.2 + real e * 9 + real f * 15
     + real g * (- 0.97) + real h * (- 2.91) + real i * (- 3.201) + real j * (- 4.074)"
  by (simp add: material_def enumerate_eq_zip upt_rec value_defs)

lemma heuristic_valuation_hit:
  "position_cache ai (zobrist_hash E (position b)) = Some v \<Longrightarrow>
   heuristic_valuation E ai b = (Inr v, ai, b)"
  by (simp add: heuristic_valuation_def)

lemma heuristic_valuation_miss:
  "position_cache ai (zobrist_hash E (position b)) = None \<Longrightarrow>
   heuristic_valuation E ai b =
     (case get_mobility_features E b of
        (Inl e, b') \<Rightarrow> (Inl e, ai, b')
      | (Inr (wm, bm, we, be), b') \<Rightarrow>
          (Inr (material (count_pieces E b)
                + (mobility_weight * (real wm * we - real bm * be)
                   + pawn_development_weight
                     * (real (fst (get_pawn_development E b')) - real (snd (get_pawn_development E b'))))),
           ai\<lparr>position_cache := (position_cache ai)(zobrist_hash E (position b) \<mapsto>
                material (count_pieces E b)
                + (mobility_weight * (real wm * we - real bm * be)
                   + pawn_development_weight
                     * (real (fst (get_pawn_development E b')) - real (snd (get_pawn_development E b')))))\<rparr>,
           b'))"
  by (simp add: heuristic_valuation_def get_heuristic_features_def Let_def
      split: prod.splits sum.splits)

lemma pop_push: "pop (push E m b) = Inr (m, b)"
  by (simp add: pop_def push_def)

lemma mobility_white:
  "turn E (position b) \<Longrightarrow>
   get_mobility_features E b =
     (Inr (length (legal_moves E (position b)),
           length (legal_moves E (make_move E (position b) null)),
           get_entropy (get_move_starts (legal_moves E (position b))),
           get_entropy (get_move_starts (legal_moves E (make_move E (position b) null)))), b)"
  by (simp add: get_mobility_features_def Let_def pop_push) (simp add: push_def)

lemma mobility_black_empty:
  "\<not> turn E (position b) \<Longrightarrow> stack b = [] \<Longrightarrow>
   get_mobility_features E b = (Inl IndexError, b)"
  by (simp add: get_mobility_features_def Let_def pop_def)

lemma mobility_black:
  "\<not> turn E (position b) \<Longrightarrow> stack b = (m, q) # st \<Longrightarrow>
   get_mobility_features E b =
     (Inr (length (legal_moves E q),
           length (legal_moves E (position b)),
           get_entropy (get_move_starts (legal_moves E q)),
           get_entropy (get_move_starts (legal_moves E (position b)))),
      push E null \<lparr>position = q, stack = st\<rparr>)"
  by (simp add: get_mobility_features_def Let_def pop_def)

lemma get_entropy_first_moves:
  "get_entropy (get_move_starts white_first_moves) = 1024"
  "get_entropy (get_move_starts black_first_moves) = 1024"
  by (simp_all add: get_entropy_def build_distribution_def get_move_starts_def
      white_first_moves_def black_first_moves_def mv_def)

lemma standard_start_opening: "standard_start python_chess_opening Start"
  by (simp add: standard_start_def python_chess_opening_def upt_conv_Cons flip: numeral_eq_Suc)

lemma start_value:
  "fst (heuristic_valuation python_chess_opening fresh_engine (new_board Start)) = Inr 137.764"
proof -
  have c: "position_cache fresh_engine
      (zobrist_hash python_chess_opening (position (new_board Start))) = None"
    by (simp add: fresh_engine_def)
  have t: "turn python_chess_opening (position (new_board Start))"
    by (simp add: opening_defs)
  have m: "get_mobility_features python_chess_opening (new_board Start)
      = (Inr (20, 20, 1024, 1024), new_board Start)"
    by (simp add: mobility_white [OF t])
       (simp add: python_chess_opening_def new_board_def get_entropy_first_moves,
        simp add: white_first_moves_def black_first_moves_def)
  have p: "get_pawn_development python_chess_opening (new_board Start) = (8, 48)"
    by (simp add: get_pawn_development_def opening_defs)
  have k: "material (count_pieces python_chess_opening (new_board Start)) = 139.764"
    by (simp add: count_pieces_unfold material_ten opening_defs)
  show ?thesis
    by (simp add: heuristic_valuation_miss [OF c] m p k value_defs)
qed

section \<open>Material and pawn development\<close>

text \<open>
  C3. The material term is claimed to weigh the counts of all twelve combinations of piece
  type and colour, the i-th count by the i-th weight. \<^verbatim>\<open>piece_indices\<close> is
  \<^verbatim>\<open>range(1,6)\<close>, so only ten counts are taken (no kings): at the standard starting
  position the counts are eight white pawns, two knights, two bishops, two rooks, a queen,
  then the black ones, and the sixth count (black pawns) meets the sixth weight 15 of the
  white king. The material term there is 139.764.
\<close>

theorem count_pieces_start_position:
  "count_pieces python_chess_opening (new_board Start) = [8, 2, 2, 2, 1, 8, 2, 2, 2, 1]
   \<and> material (count_pieces python_chess_opening (new_board Start)) = 139.764"
  by (simp add: count_pieces_unfold material_ten opening_defs)

text \<open>
  C4. The pawn term is claimed to sum each pawn's distance from its starting rank.
  \<^verbatim>\<open>get_pawn_development\<close> sums the rank indices instead: at the standard starting
  position, where no pawn has moved, it yields 8 for White and 48 for Black.
\<close>

theorem pawn_development_start_position:
  "get_pawn_development python_chess_opening (new_board Start) = (8, 48)"
  by (simp add: get_pawn_development_def opening_defs)

section \<open>The valuation of the starting position\<close>

text \<open>
  C5, as amended. At the standard starting position, when the position is not cached,
  both sides have 20 legal moves and concentration 1024, so the mobility term is zero and
  the valuation is the material term plus the pawn term.
\<close>

theorem start_valuation:
  assumes "standard_start E (position b)"
    and "position_cache ai (zobrist_hash E (position b)) = None"
  shows "get_mobility_features E b = (Inr (20, 20, 1024, 1024), b)
    \<and> fst (heuristic_valuation E ai b) =
        Inr (material (count_pieces E b)
             + pawn_development_weight
               * (real (fst (get_pawn_development E b)) - real (snd (get_pawn_development E b))))"
proof -
  have t: "turn E (position b)"
    and w: "get_move_starts (legal_moves E (position b)) = get_move_starts white_first_moves"
    and k: "get_move_starts (legal_moves E (make_move E (position b) null))
            = get_move_starts black_first_moves"
    using assms(1) by (simp_all add: standard_start_def)
  have lw: "length (legal_moves E (position b)) = 20"
    using arg_cong [OF w, of length]
    by (simp add: get_move_starts_def white_first_moves_def)
  have lb: "length (legal_moves E (make_move E (position b) null)) = 20"
    using arg_cong [OF k, of length]
    by (simp add: get_move_starts_def black_first_moves_def)
  have m: "get_mobility_features E b = (Inr (20, 20, 1024, 1024), b)"
    by (simp add: mobility_white [OF t] w k lw lb get_entropy_first_moves)
  show ?thesis
    by (simp add: m heuristic_valuation_miss [OF assms(2)])
qed

text \<open>The amended statement at the board of a new game and an engine with an empty cache.\<close>

theorem start_valuation_witness:
  "standard_start python_chess_opening (position (new_board Start))
   \<and> position_cache fresh_engine
       (zobrist_hash python_chess_opening (position (new_board Start))) = None
   \<and> get_mobility_features python_chess_opening (new_board Start)
       = (Inr (20, 20, 1024, 1024), new_board Start)
   \<and> fst (heuristic_valuation python_chess_opening fresh_engine (new_board Start)) =
        Inr (material (count_pieces python_chess_opening (new_board Start))
             + pawn_development_weight
               * (real (fst (get_pawn_development python_chess_opening (new_board Start)))
                  - real (snd (get_pawn_development python_chess_opening (new_board Start)))))"
proof -
  have 1: "standard_start python_chess_opening (position (new_board Start))"
    by (simp add: new_board_def standard_start_opening)
  have 2: "position_cache fresh_engine
      (zobrist_hash python_chess_opening (position (new_board Start))) = None"
    by (simp add: fresh_engine_def)
  show ?thesis
    using 1 2 start_valuation [OF 1 2] by simp
qed

text \<open>
  C5 as stated fails: the valuation of the standard starting position is 137.764, the
  material term is not zero and neither side's pawn total is zero.
\<close>

theorem start_valuation_nonzero:
  "fst (heuristic_valuation python_chess_opening fresh_engine (new_board Start)) = Inr 137.764
   \<and> material (count_pieces python_chess_opening (new_board Start)) \<noteq> 0
   \<and> get_pawn_development python_chess_opening (new_board Start) \<noteq> (0, 0)"
proof -
  have p: "get_pawn_development python_chess_opening (new_board Start) = (8, 48)"
    by (simp add: get_pawn_development_def opening_defs)
  have k: "material (count_pieces python_chess_opening (new_board Start)) = 139.764"
    by (simp add: count_pieces_unfold material_ten opening_defs)
  show ?thesis
    by (simp add: start_value p k)
qed

section \<open>Black to move on an empty move stack\<close>

text \<open>
  C10. On a board with Black to move and an empty move stack, a heuristic evaluation
  that misses the cache returns no valuation: the mobility computation pops before it
  pushes the null move, and \<^verbatim>\<open>pop\<close> raises \<^verbatim>\<open>IndexError\<close>; the engine and the
  board are as before.
\<close>

theorem black_to_move_empty_stack:
  assumes "\<not> turn E (position b)" and "stack b = []"
    and "position_cache ai (zobrist_hash E (position b)) = None"
  shows "heuristic_valuation E ai b = (Inl IndexError, ai, b)"
  using assms by (simp add: heuristic_valuation_miss mobility_black_empty)

text \<open>The starting position with Black to move, as set up from a FEN string.\<close>

theorem black_to_move_empty_stack_witness:
  "\<not> turn python_chess_opening (position (new_board StartBlack))
   \<and> stack (new_board StartBlack) = []
   \<and> position_cache fresh_engine
       (zobrist_hash python_chess_opening (position (new_board StartBlack))) = None
   \<and> heuristic_valuation python_chess_opening fresh_engine (new_board StartBlack)
       = (Inl IndexError, fresh_engine, new_board StartBlack)"
proof -
  have 1: "\<not> turn python_chess_opening (position (new_board StartBlack))"
    by (simp add: opening_defs)
  have 2: "stack (new_board StartBlack) = []"
    by (simp add: new_board_def)
  have 3: "position_cache fresh_engine
      (zobrist_hash python_chess_opening (position (new_board StartBlack))) = None"
    by (simp add: fresh_engine_def)
  show ?thesis
    using 1 2 3 black_to_move_empty_stack [OF 1 2 3] by simp
qed


section \<open>The concentration statistic\<close>

lemma build_distribution_snoc:
  "build_distribution (xs @ [x]) = increment x (build_distribution xs)"
  by (simp add: build_distribution_def)

lemma increment_keys: "fst ` set (increment s d) = insert s (fst ` set d)"
  by (induction s d rule: increment.induct) (auto split: if_splits)

lemma increment_distinct:
  "distinct (map fst d) \<Longrightarrow> distinct (map fst (increment s d))"
proof (induction s d rule: increment.induct)
  case (1 s)
  then show ?case by simp
next
  case (2 s k c d)
  then show ?case
    using increment_keys [of s d] by (auto simp: image_iff)
qed

lemma increment_map_of:
  "map_of (increment s d) k =
     (if k = s then Some (case map_of d s of None \<Rightarrow> 1 | Some c \<Rightarrow> c + 1) else map_of d k)"
  by (induction s d rule: increment.induct) auto

lemma build_distribution_keys: "fst ` set (build_distribution xs) = set xs"
proof (induction xs rule: rev_induct)
  case Nil
  show ?case by (simp add: build_distribution_def)
next
  case (snoc x xs)
  then show ?case by (simp add: build_distribution_snoc increment_keys)
qed

lemma build_distribution_distinct: "distinct (map fst (build_distribution xs))"
proof (induction xs rule: rev_induct)
  case Nil
  show ?case by (simp add: build_distribution_def)
next
  case (snoc x xs)
  then show ?case by (simp add: build_distribution_snoc increment_distinct)
qed

lemma build_distribution_map_of:
  "map_of (build_distribution xs) k = (if k \<in> set xs then Some (count_list xs k) else None)"
proof (induction xs rule: rev_induct)
  case Nil
  show ?case by (simp add: build_distribution_def)
next
  case (snoc x xs)
  then show ?case
    by (auto simp: build_distribution_snoc increment_map_of count_list_0_iff)
qed

lemma build_distribution_counts:
  assumes "(k, c) \<in> set (build_distribution xs)"
  shows "c = count_list xs k"
proof -
  have "map_of (build_distribution xs) k = Some c"
    using assms build_distribution_distinct [of xs] by simp
  then show ?thesis
    by (simp add: build_distribution_map_of split: if_splits)
qed

lemma foldl_product:
  "foldl (\<lambda>product count. product * real count) a cs = a * prod_list (map real cs)"
  by (induction cs arbitrary: a) (simp_all add: mult.assoc)

lemma get_entropy_product:
  "get_entropy xs = (\<Prod>s\<in>set xs. real (count_list xs s))"
proof -
  let ?d = "build_distribution xs"
  have "map real (map snd ?d) = map (\<lambda>k. real (count_list xs k)) (map fst ?d)"
    using build_distribution_counts [of _ _ xs] by auto
  moreover have "get_entropy xs = prod_list (map real (map snd ?d))"
    by (simp add: get_entropy_def foldl_product del: map_map)
  ultimately have "get_entropy xs = prod_list (map (\<lambda>k. real (count_list xs k)) (map fst ?d))"
    by (simp only:)
  also have "\<dots> = (\<Prod>s\<in>set (map fst ?d). real (count_list xs s))"
    by (rule prod.distinct_set_conv_list [symmetric]) (rule build_distribution_distinct)
  also have "set (map fst ?d) = set xs"
    using build_distribution_keys [of xs] by simp
  finally show ?thesis .
qed

lemma get_entropy_concentration:
  "get_entropy (get_move_starts moves) = concentration moves"
proof -
  let ?starts = "map from_square moves"
  have "(\<Prod>s\<in>set ?starts. real (count_list ?starts s))
      = prod_list (map (\<lambda>s. real (count_list ?starts s)) (remdups ?starts))"
    using prod.distinct_set_conv_list [of "remdups ?starts" "\<lambda>s. real (count_list ?starts s)"]
    by simp
  then show ?thesis
    by (simp add: get_entropy_product concentration_def get_move_starts_def Let_def)
qed

text \<open>
  The mobility term of a valuation that is not cached. With White to move, White's moves
  are the legal moves of the position and Black's those after a null move, and the term is
  \<open>mobility_weight * (wm * wc - bm * bc)\<close> with the concentrations of the two move lists.
  With Black to move, Black's moves are the legal moves of the position, but White's are
  those of the position before the last move, which \<^verbatim>\<open>pop\<close> restores.
\<close>

lemma mobility_term_white:
  assumes "position_cache ai (zobrist_hash E (position b)) = None"
    and "turn E (position b)"
  shows "fst (heuristic_valuation E ai b) =
           Inr (material (count_pieces E b)
                + (mobility_weight
                     * (real (length (legal_moves E (position b)))
                          * concentration (legal_moves E (position b))
                        - real (length (legal_moves E (make_move E (position b) null)))
                          * concentration (legal_moves E (make_move E (position b) null)))
                   + pawn_development_weight
                     * (real (fst (get_pawn_development E b)) - real (snd (get_pawn_development E b)))))"
  by (simp add: heuristic_valuation_miss [OF assms(1)] mobility_white [OF assms(2)]
      get_entropy_concentration)

lemma mobility_term_black:
  assumes "position_cache ai (zobrist_hash E (position b)) = None"
    and "\<not> turn E (position b)" and "stack b = (m, q) # st"
  shows "fst (heuristic_valuation E ai b) =
           Inr (material (count_pieces E b)
                + (mobility_weight
                     * (real (length (legal_moves E q)) * concentration (legal_moves E q)
                        - real (length (legal_moves E (position b)))
                          * concentration (legal_moves E (position b)))
                   + pawn_development_weight
                     * (real (fst (get_pawn_development E (push E null \<lparr>position = q, stack = st\<rparr>)))
                        - real (snd (get_pawn_development E (push E null \<lparr>position = q, stack = st\<rparr>))))))"
  by (simp add: heuristic_valuation_miss [OF assms(1)] mobility_black [OF assms(2,3)]
      get_entropy_concentration)

lemma concentration_first_moves:
  "concentration white_first_moves = 1024" "concentration black_first_moves = 1024"
  using get_entropy_first_moves by (simp_all add: get_entropy_concentration)

lemma opening_simps:
  "legal_moves python_chess_opening Start = white_first_moves"
  "legal_moves python_chess_opening StartBlack = black_first_moves"
  "legal_moves python_chess_opening AfterE4 = black_first_moves"
  "legal_moves python_chess_opening AfterE4White = white_second_moves"
  "make_move python_chess_opening Start null = StartBlack"
  "make_move python_chess_opening Start (mv 12 28) = AfterE4"
  "make_move python_chess_opening AfterE4 null = AfterE4White"
  "pieces python_chess_opening Start = start_pieces"
  "pieces python_chess_opening StartBlack = start_pieces"
  "pieces python_chess_opening AfterE4 =
     (\<lambda>piece_type colour. if colour \<and> piece_type = 1 then [8, 9, 10, 11, 13, 14, 15, 28]
                            else start_pieces piece_type colour)"
  "turn python_chess_opening Start"
  "\<not> turn python_chess_opening StartBlack"
  "\<not> turn python_chess_opening AfterE4"
  "zobrist_hash python_chess_opening Start = 5060803636482931868"
  "zobrist_hash python_chess_opening StartBlack = 13757846718353144213"
  "zobrist_hash python_chess_opening AfterE4 = 9384546495678726550"
  by (simp_all add: python_chess_opening_def mv_def null_def)

lemma concentration_second_moves:
  "length white_second_moves = 30" "concentration white_second_moves = 15360"
  by code_simp+

text \<open>
  C8. The mobility term is claimed to be \<open>mobility_weight * (wm * wc - bm * bc)\<close> of the
  two sides' mobilities and concentrations for every board. On the board after the first
  move e2e4, with Black to move, Black has 20 legal moves of concentration 1024 and White,
  were it to move, 30 of concentration 15360, so that the term claimed is 44032. The
  engine takes the move back before it counts White's moves: it counts the 20 moves of the
  starting position, of concentration 1024, and the term it adds is 0; the valuation is
  137.764, the material 139.764 and the pawn term \<open>0.05 * (8 - 48)\<close>.
\<close>

theorem mobility_measured_before_last_move:
  "\<not> turn python_chess_opening
        (position (push python_chess_opening (mv 12 28) (new_board Start)))
   \<and> length (legal_moves python_chess_opening
        (position (push python_chess_opening (mv 12 28) (new_board Start)))) = 20
   \<and> concentration (legal_moves python_chess_opening
        (position (push python_chess_opening (mv 12 28) (new_board Start)))) = 1024
   \<and> length (legal_moves python_chess_opening
        (make_move python_chess_opening
           (position (push python_chess_opening (mv 12 28) (new_board Start))) null)) = 30
   \<and> concentration (legal_moves python_chess_opening
        (make_move python_chess_opening
           (position (push python_chess_opening (mv 12 28) (new_board Start))) null)) = 15360
   \<and> mobility_weight * (real 30 * 15360 - real 20 * 1024) = 44032
   \<and> get_mobility_features python_chess_opening
        (push python_chess_opening (mv 12 28) (new_board Start))
       = (Inr (20, 20, 1024, 1024), push python_chess_opening null (new_board Start))
   \<and> mobility_weight * (real 20 * 1024 - real 20 * 1024) = 0
   \<and> material (count_pieces python_chess_opening
        (push python_chess_opening (mv 12 28) (new_board Start))) = 139.764
   \<and> get_pawn_development python_chess_opening
        (push python_chess_opening null (new_board Start)) = (8, 48)
   \<and> fst (heuristic_valuation python_chess_opening fresh_engine
            (push python_chess_opening (mv 12 28) (new_board Start))) = Inr 137.764"
proof -
  let ?b = "push python_chess_opening (mv 12 28) (new_board Start)"
  have p: "position ?b = AfterE4" "stack ?b = (mv 12 28, Start) # []"
    by (simp_all add: push_def new_board_def opening_simps)
  have n: "push python_chess_opening null (new_board Start)
      = push python_chess_opening null \<lparr>position = Start, stack = []\<rparr>"
    by (simp add: new_board_def)
  have 1: "position_cache fresh_engine (zobrist_hash python_chess_opening (position ?b)) = None"
    by (simp add: fresh_engine_def)
  have t: "\<not> turn python_chess_opening (position ?b)"
    by (simp add: p opening_simps)
  have l: "length white_first_moves = 20" "length black_first_moves = 20"
    by (simp_all add: white_first_moves_def black_first_moves_def)
  have 2: "get_mobility_features python_chess_opening ?b
      = (Inr (20, 20, 1024, 1024), push python_chess_opening null (new_board Start))"
    by (simp add: mobility_black [OF t p(2)] p(1) n opening_simps get_entropy_first_moves l)
  have c: "material (count_pieces python_chess_opening ?b) = 139.764"
    by (simp add: count_pieces_unfold material_ten p(1) opening_simps start_pieces_def)
  have d: "get_pawn_development python_chess_opening (push python_chess_opening null (new_board Start)) = (8, 48)"
    by (simp add: get_pawn_development_def push_def new_board_def opening_simps start_pieces_def)
  have h: "fst (heuristic_valuation python_chess_opening fresh_engine ?b) = Inr 137.764"
    by (simp add: heuristic_valuation_miss [OF 1] 2 c d value_defs)
  have w: "mobility_weight * (real 30 * 15360 - real 20 * 1024) = 44032"
    "mobility_weight * (real 20 * 1024 - real 20 * 1024) = 0"
    by (simp_all add: value_defs)
  show ?thesis
    using t 2 c d h w
    by (simp add: p(1) opening_simps l concentration_first_moves concentration_second_moves)
qed

section \<open>Restoration of the board\<close>

lemma alpha_beta_search_leaf:
  "alpha_beta_search (Suc fuel) E ai b alpha beta player 0 =
     (case heuristic_valuation E ai b of
        (Inl e, ai', b') \<Rightarrow> Some (Inl e, ai', b')
      | (Inr v, ai', b') \<Rightarrow> Some (Inr (Some (Fin v)), ai', b'))"
  by simp

text \<open>
  C1. The board is claimed to be the same before and after a top-level search and after
  every single heuristic evaluation. On the board after the first move e2e4 (Black to
  move, the move on the stack, nothing cached), a search of depth 0 returns 137.764 and
  leaves another board: the starting position with Black to move, reached by a null move,
  whose hash differs. With Black to move \<^verbatim>\<open>get_mobility_features\<close> pops the last move
  and pushes the null move in its place; with White to move it pushes the null move first
  and pops it.
\<close>

theorem search_replaces_last_move:
  "map_option (\<lambda>(r, ai, b). (r, b))
     (alpha_beta_search 1 python_chess_opening fresh_engine
        \<lparr>position = AfterE4, stack = [(mv 12 28, Start)]\<rparr> NegInf PosInf ''Black'' 0)
   = Some (Inr (Some (Fin 137.764)), \<lparr>position = StartBlack, stack = [(null, Start)]\<rparr>)
   \<and> zobrist_hash python_chess_opening StartBlack \<noteq> zobrist_hash python_chess_opening AfterE4"
proof -
  let ?b = "\<lparr>position = AfterE4, stack = [(mv 12 28, Start)]\<rparr>"
  have 1: "position_cache fresh_engine (zobrist_hash python_chess_opening (position ?b)) = None"
    by (simp add: fresh_engine_def)
  have t: "\<not> turn python_chess_opening (position ?b)"
    by (simp add: opening_simps)
  have 2: "get_mobility_features python_chess_opening ?b
      = (Inr (20, 20, 1024, 1024), \<lparr>position = StartBlack, stack = [(null, Start)]\<rparr>)"
    by (simp add: mobility_black [OF t, of "mv 12 28" Start "[]"] opening_simps
        get_entropy_first_moves push_def)
       (simp add: white_first_moves_def black_first_moves_def)
  have c: "material (count_pieces python_chess_opening ?b) = 139.764"
    by (simp add: count_pieces_unfold material_ten opening_simps start_pieces_def)
  have d: "get_pawn_development python_chess_opening \<lparr>position = StartBlack, stack = [(null, Start)]\<rparr> = (8, 48)"
    by (simp add: get_pawn_development_def opening_simps start_pieces_def)
  have h: "heuristic_valuation python_chess_opening fresh_engine ?b
      = (Inr 137.764,
         fresh_engine\<lparr>position_cache := (position_cache fresh_engine)
            (zobrist_hash python_chess_opening (position ?b) \<mapsto> 137.764)\<rparr>,
         \<lparr>position = StartBlack, stack = [(null, Start)]\<rparr>)"
    by (simp add: heuristic_valuation_miss [OF 1] 2 c d value_defs)
  show ?thesis
    unfolding One_nat_def alpha_beta_search_leaf h by (simp add: opening_simps)
qed


section \<open>A missing model file\<close>

text \<open>
  C7, as amended. When a model path is supplied and no file exists at it (the cache file
  being absent or holding a pickled dictionary), the constructor prints the message that the model was not
  found and returns the engine, without a model; no error is raised. A model-based
  evaluation with that engine raises \<^verbatim>\<open>AttributeError\<close>.
\<close>

theorem missing_model_logged:
  assumes "path \<noteq> []" and "fs path = None"
    and "file_at fs cpath = None \<or> (\<exists>c. file_at fs cpath = Some (Pickle (Dictionary c)))"
  shows "\<exists>ai. init fs cpath (Some path)
             = (Inr (Engine ai), [''ERROR. Model not found. Please check model path again.''])
           \<and> model ai = None \<and> cache_path ai = cpath
           \<and> model_valuation E ai b = Inl AttributeError"
  using assms
  by (auto simp: init_def file_at_def load_def construct_def model_valuation_def
      get_model_features_def)

text \<open>
  No file at all: the constructor returns the engine with the empty cache.
\<close>

theorem missing_model_logged_witness:
  "''model.pkl'' \<noteq> [] \<and> Map.empty ''model.pkl'' = (None :: file_content option)
   \<and> init Map.empty ''cache.pkl'' (Some ''model.pkl'')
       = (Inr (Engine fresh_engine), [''ERROR. Model not found. Please check model path again.''])"
proof -
  have 1: "''model.pkl'' \<noteq> []" by simp
  have 2: "(Map.empty :: files) ''model.pkl'' = None" by simp
  have 3: "file_at Map.empty ''cache.pkl'' = None
      \<or> (\<exists>c. file_at Map.empty ''cache.pkl'' = Some (Pickle (Dictionary c)))"
    by (simp add: file_at_def)
  show ?thesis
    using missing_model_logged [OF 1 2 3, where E = python_chess_opening and b = "new_board Start"]
    by (auto simp: init_def file_at_def construct_def fresh_engine_def)
qed

text \<open>
  C7 as stated fails: with a model path and no model file the constructor raises no
  error, and a search with the engine it returns runs and yields a value.
\<close>

theorem missing_model_not_fatal:
  "fst (init Map.empty ''cache.pkl'' (Some ''model.pkl'')) = Inr (Engine fresh_engine)
   \<and> map_option fst (alpha_beta_search 1 python_chess_opening fresh_engine (new_board Start)
         NegInf PosInf ''White'' 0) = Some (Inr (Some (Fin 137.764)))"
proof -
  have "fst (heuristic_valuation python_chess_opening fresh_engine (new_board Start)) = Inr 137.764"
    by (rule start_value)
  then show ?thesis
    unfolding One_nat_def alpha_beta_search_leaf
    by (auto simp: init_def file_at_def construct_def fresh_engine_def split: prod.splits sum.splits)
qed

section \<open>The cache is append-only\<close>

text \<open>
  Each operation leaves the cache it starts from a sub-map of the cache it ends with,
  whether it returns or raises.
\<close>


lemma heuristic_cache_le:
  assumes "heuristic_valuation E ai b = (r, ai', b')"
  shows "position_cache ai \<subseteq>\<^sub>m position_cache ai'"
proof (cases "position_cache ai (zobrist_hash E (position b))")
  case None
  then show ?thesis
    using assms
    by (auto simp: heuristic_valuation_miss map_le_def split: prod.splits sum.splits)
next
  case (Some v)
  then show ?thesis
    using assms by (simp add: heuristic_valuation_hit)
qed

lemma evaluate_move_cache_le:
  assumes "evaluate_move E ai b m = (r, ai', b')"
  shows "position_cache ai \<subseteq>\<^sub>m position_cache ai'"
proof -
  obtain r1 ai1 b1 where h: "heuristic_valuation E ai (push E m b) = (r1, ai1, b1)"
    by (cases "heuristic_valuation E ai (push E m b)") auto
  have "ai' = ai1"
    using assms h by (auto simp: evaluate_move_def split: sum.splits prod.splits)
  then show ?thesis
    using heuristic_cache_le [OF h] by simp
qed

lemma sort_keys_cache_le:
  "sort_keys E ai b ms = (r, ai', b') \<Longrightarrow> position_cache ai \<subseteq>\<^sub>m position_cache ai'"
proof (induction ms arbitrary: ai b r ai' b')
  case Nil
  then show ?case by simp
next
  case (Cons m ms)
  obtain r1 ai1 b1 where e: "evaluate_move E ai b m = (r1, ai1, b1)"
    by (cases "evaluate_move E ai b m") auto
  note le1 = evaluate_move_cache_le [OF e]
  show ?case
  proof (cases r1)
    case (Inl err)
    then show ?thesis using Cons.prems e le1 by simp
  next
    case (Inr k)
    obtain r2 ai2 b2 where s: "sort_keys E ai1 b1 ms = (r2, ai2, b2)"
      by (cases "sort_keys E ai1 b1 ms") auto
    have "ai' = ai2"
      using Cons.prems e Inr s by (auto split: sum.splits)
    then show ?thesis
      using map_le_trans [OF le1 Cons.IH [OF s]] by simp
  qed
qed

lemma sorted_moves_cache_le:
  assumes "sorted_moves E rv ai b = (r, ai', b')"
  shows "position_cache ai \<subseteq>\<^sub>m position_cache ai'"
proof -
  obtain r1 ai1 b1 where s: "sort_keys E ai b (legal_moves E (position b)) = (r1, ai1, b1)"
    by (cases "sort_keys E ai b (legal_moves E (position b))") auto
  have "ai' = ai1"
    using assms s by (auto simp: sorted_moves_def Let_def split: sum.splits)
  then show ?thesis
    using sort_keys_cache_le [OF s] by simp
qed

lemma white_loop_cache_le:
  assumes rec: "\<And>ai b alpha beta r ai' b'.
      rec ai b alpha beta = Some (r, ai', b') \<Longrightarrow> position_cache ai \<subseteq>\<^sub>m position_cache ai'"
  shows "white_loop E rec ai b alpha beta ms = Some (r, ai', b') \<Longrightarrow>
         position_cache ai \<subseteq>\<^sub>m position_cache ai'"
proof (induction ms arbitrary: ai b alpha)
  case Nil
  then show ?case by simp
next
  case (Cons m ms)
  obtain r1 ai1 b1 where c: "rec ai (push E m b) alpha beta = Some (r1, ai1, b1)"
    using Cons.prems by (auto split: option.splits)
  note le1 = rec [OF c]
  show ?case
    using Cons.prems c le1
    by (auto simp: Let_def split: sum.splits option.splits if_splits
        dest!: Cons.IH intro: map_le_trans)
qed

lemma black_loop_cache_le:
  assumes rec: "\<And>ai b alpha beta r ai' b'.
      rec ai b alpha beta = Some (r, ai', b') \<Longrightarrow> position_cache ai \<subseteq>\<^sub>m position_cache ai'"
  shows "black_loop E rec ai b alpha beta ms = Some (r, ai', b') \<Longrightarrow>
         position_cache ai \<subseteq>\<^sub>m position_cache ai'"
proof (induction ms arbitrary: ai b beta)
  case Nil
  then show ?case by simp
next
  case (Cons m ms)
  obtain r1 ai1 b1 where c: "rec ai (push E m b) alpha beta = Some (r1, ai1, b1)"
    using Cons.prems by (auto split: option.splits)
  note le1 = rec [OF c]
  show ?case
    using Cons.prems c le1
    by (auto simp: Let_def split: sum.splits option.splits if_splits
        dest!: Cons.IH intro: map_le_trans)
qed

lemma alpha_beta_search_cache_le:
  "alpha_beta_search fuel E ai b alpha beta player depth = Some (r, ai', b') \<Longrightarrow>
   position_cache ai \<subseteq>\<^sub>m position_cache ai'"
proof (induction fuel arbitrary: ai b alpha beta player depth r ai' b')
  case 0
  then show ?case by simp
next
  case (Suc fuel)
  show ?case
  proof (cases "depth = 0")
    case True
    obtain r1 ai1 b1 where h: "heuristic_valuation E ai b = (r1, ai1, b1)"
      by (cases "heuristic_valuation E ai b") auto
    have "ai' = ai1"
      using Suc.prems True h by (auto split: sum.splits)
    then show ?thesis
      using heuristic_cache_le [OF h] by simp
  next
    case False
    note d = False
    consider (white) "player = ''White''" | (black) "player \<noteq> ''White''" "player = ''Black''"
      | (other) "player \<noteq> ''White''" "player \<noteq> ''Black''"
      by blast
    then show ?thesis
    proof cases
      case white
      obtain r1 ai1 b1 where s: "sorted_moves E True ai b = (r1, ai1, b1)"
        by (cases "sorted_moves E True ai b") auto
      note le1 = sorted_moves_cache_le [OF s]
      show ?thesis
      proof (cases r1)
        case (Inl err)
        then show ?thesis using Suc.prems d white s le1 by simp
      next
        case (Inr ms)
        have "white_loop E (\<lambda>ai b alpha beta. alpha_beta_search fuel E ai b alpha beta ''Black'' (depth - 1))
                ai1 b1 alpha beta ms = Some (r, ai', b')"
          using Suc.prems d white s Inr by simp
        then have "position_cache ai1 \<subseteq>\<^sub>m position_cache ai'"
          by (rule white_loop_cache_le [rotated]) (rule Suc.IH)
        then show ?thesis
          using le1 by (rule map_le_trans [rotated])
      qed
    next
      case black
      obtain r1 ai1 b1 where s: "sorted_moves E False ai b = (r1, ai1, b1)"
        by (cases "sorted_moves E False ai b") auto
      note le1 = sorted_moves_cache_le [OF s]
      show ?thesis
      proof (cases r1)
        case (Inl err)
        then show ?thesis using Suc.prems d black s le1 by simp
      next
        case (Inr ms)
        have "black_loop E (\<lambda>ai b alpha beta. alpha_beta_search fuel E ai b alpha beta ''White'' (depth - 1))
                ai1 b1 alpha beta ms = Some (r, ai', b')"
          using Suc.prems d black s Inr by simp
        then have "position_cache ai1 \<subseteq>\<^sub>m position_cache ai'"
          by (rule black_loop_cache_le [rotated]) (rule Suc.IH)
        then show ?thesis
          using le1 by (rule map_le_trans [rotated])
      qed
    next
      case other
      then show ?thesis using Suc.prems d by simp
    qed
  qed
qed

lemma optimization_loop_cache_le:
  assumes search: "\<And>ai b r ai' b'.
      search ai b = Some (r, ai', b') \<Longrightarrow> position_cache ai \<subseteq>\<^sub>m position_cache ai'"
  shows "optimization_loop E search ai b min_value opt_move ms = Some (r, ai', b') \<Longrightarrow>
         position_cache ai \<subseteq>\<^sub>m position_cache ai'"
proof (induction ms arbitrary: ai b min_value opt_move)
  case Nil
  then show ?case by simp
next
  case (Cons m ms)
  obtain r1 ai1 b1 where c: "search ai (push E m b) = Some (r1, ai1, b1)"
    using Cons.prems by (auto split: option.splits)
  note le1 = search [OF c]
  show ?case
    using Cons.prems c le1
    by (auto split: sum.splits option.splits if_splits
        dest!: Cons.IH intro: map_le_trans)
qed

lemma move_optimization_cache_le:
  assumes "move_optimization fuel E fs ai b alpha beta depth = Some (r, fs', ai', b')"
  shows "position_cache ai \<subseteq>\<^sub>m position_cache ai'"
proof -
  obtain r1 where "optimization_loop E
       (\<lambda>ai b. alpha_beta_search fuel E ai b alpha beta ''White'' (depth - 1))
       ai b (Fin 10000000000) None (legal_moves E (position b)) = Some (r1, ai', b')"
    using assms by (auto simp: move_optimization_def split: option.splits sum.splits prod.splits)
  then show ?thesis
    by (rule optimization_loop_cache_le [rotated]) (rule alpha_beta_search_cache_le)
qed

text \<open>
  C9. A heuristic evaluation first looks the hash of the board up in the cache and, when
  it is present, returns the cached value and changes nothing. A heuristic evaluation, the
  evaluation of a move, a search and a move selection, whatever they return or raise,
  leave every key that was in the cache with the value it had.
\<close>

theorem cache_append_only:
  "(position_cache ai (zobrist_hash E (position b)) = Some v \<longrightarrow>
      heuristic_valuation E ai b = (Inr v, ai, b))
   \<and> (heuristic_valuation E ai b = (r1, ai1, b1) \<longrightarrow>
        position_cache ai \<subseteq>\<^sub>m position_cache ai1)
   \<and> (evaluate_move E ai b m = (r2, ai2, b2) \<longrightarrow>
        position_cache ai \<subseteq>\<^sub>m position_cache ai2)
   \<and> (alpha_beta_search fuel E ai b alpha beta player depth = Some (r3, ai3, b3) \<longrightarrow>
        position_cache ai \<subseteq>\<^sub>m position_cache ai3)
   \<and> (move_optimization fuel E fs ai b alpha beta depth = Some (r4, fs4, ai4, b4) \<longrightarrow>
        position_cache ai \<subseteq>\<^sub>m position_cache ai4)"
  by (intro conjI impI;
      erule heuristic_valuation_hit heuristic_cache_le evaluate_move_cache_le
        alpha_beta_search_cache_le move_optimization_cache_le)

text \<open>
  The statement on the small game, with the value 7 cached for the hash of \<open>LeafX\<close>.
\<close>

theorem cache_append_only_witness:
  "position_cache (fresh_engine\<lparr>position_cache := [13 \<mapsto> 7]\<rparr>)
     (zobrist_hash (small_game True) (position (new_board LeafX))) = Some 7
   \<and> heuristic_valuation (small_game True) (fresh_engine\<lparr>position_cache := [13 \<mapsto> 7]\<rparr>) (new_board LeafX)
       = (Inr 7, fresh_engine\<lparr>position_cache := [13 \<mapsto> 7]\<rparr>, new_board LeafX)
   \<and> position_cache (fresh_engine\<lparr>position_cache := [13 \<mapsto> 7]\<rparr>) \<subseteq>\<^sub>m
       position_cache (fst (snd (heuristic_valuation (small_game True)
          (fresh_engine\<lparr>position_cache := [13 \<mapsto> 7]\<rparr>) (new_board NodeA))))
   \<and> position_cache (fresh_engine\<lparr>position_cache := [13 \<mapsto> 7]\<rparr>) \<subseteq>\<^sub>m
       position_cache (fst (snd (evaluate_move (small_game True)
          (fresh_engine\<lparr>position_cache := [13 \<mapsto> 7]\<rparr>) (new_board NodeA) (mv 1 3))))
   \<and> alpha_beta_search 3 (small_game True) (fresh_engine\<lparr>position_cache := [13 \<mapsto> 7]\<rparr>)
         (new_board Root) NegInf PosInf ''Black'' 2 \<noteq> None
   \<and> position_cache (fresh_engine\<lparr>position_cache := [13 \<mapsto> 7]\<rparr>) \<subseteq>\<^sub>m
       position_cache (fst (snd (the (alpha_beta_search 3 (small_game True)
          (fresh_engine\<lparr>position_cache := [13 \<mapsto> 7]\<rparr>) (new_board Root) NegInf PosInf ''Black'' 2))))
   \<and> move_optimization 3 (small_game True) empty_storage (fresh_engine\<lparr>position_cache := [13 \<mapsto> 7]\<rparr>)
         (new_board Root) NegInf PosInf 3 \<noteq> None
   \<and> position_cache (fresh_engine\<lparr>position_cache := [13 \<mapsto> 7]\<rparr>) \<subseteq>\<^sub>m
       position_cache (fst (snd (snd (the (move_optimization 3 (small_game True) empty_storage
          (fresh_engine\<lparr>position_cache := [13 \<mapsto> 7]\<rparr>) (new_board Root) NegInf PosInf 3)))))"
proof -
  let ?G = "small_game True"
  let ?ai = "fresh_engine\<lparr>position_cache := [13 \<mapsto> 7]\<rparr>"
  let ?ab = "alpha_beta_search 3 ?G ?ai (new_board Root) NegInf PosInf ''Black'' 2"
  let ?mo = "move_optimization 3 ?G empty_storage ?ai (new_board Root) NegInf PosInf 3"
  have hit: "position_cache ?ai (zobrist_hash ?G (position (new_board LeafX))) = Some 7"
    by (simp add: small_game_def new_board_def)
  have ab: "?ab \<noteq> None"
  proof -
    have "map_option fst ?ab = Some (Inr (Some (Fin 7)))" by code_simp
    then show ?thesis by auto
  qed
  have mo: "?mo \<noteq> None"
  proof -
    have "map_option fst ?mo = Some (Inr None)" by code_simp
    then show ?thesis by auto
  qed
  have ab': "?ab = Some (fst (the ?ab), fst (snd (the ?ab)), snd (snd (the ?ab)))"
    using ab by auto
  have mo': "?mo = Some (fst (the ?mo), fst (snd (the ?mo)), fst (snd (snd (the ?mo))), snd (snd (snd (the ?mo))))"
    using mo by auto
  show ?thesis
    using hit ab mo
      cache_append_only [of ?ai ?G "new_board LeafX" 7 _ _ _ "mv 0 0"]
      cache_append_only [of ?ai ?G "new_board NodeA" 0
        "fst (heuristic_valuation ?G ?ai (new_board NodeA))"
        "fst (snd (heuristic_valuation ?G ?ai (new_board NodeA)))"
        "snd (snd (heuristic_valuation ?G ?ai (new_board NodeA)))"
        "mv 1 3"
        "fst (evaluate_move ?G ?ai (new_board NodeA) (mv 1 3))"
        "fst (snd (evaluate_move ?G ?ai (new_board NodeA) (mv 1 3)))"
        "snd (snd (evaluate_move ?G ?ai (new_board NodeA) (mv 1 3)))"]
      cache_append_only [of ?ai ?G "new_board Root" 0 _ _ _ "mv 0 0" _ _ _ 3 NegInf PosInf "''Black''" 2
        "fst (the ?ab)" "fst (snd (the ?ab))" "snd (snd (the ?ab))"] ab'
      cache_append_only [of ?ai ?G "new_board Root" 0 _ _ _ "mv 0 0" _ _ _ 3 NegInf PosInf _ 3
        _ _ _ empty_storage "fst (the ?mo)" "fst (snd (the ?mo))" "fst (snd (snd (the ?mo)))" "snd (snd (snd (the ?mo)))"] mo'
    by simp
qed


section \<open>The search returns and restores the board below the root\<close>

text \<open>
  On a board with a move on its stack a heuristic evaluation raises nothing and leaves a
  board that \<^verbatim>\<open>pop\<close> takes back to the same board. So the evaluation of a move
  restores the board, and a search of depth at least 1 with enough fuel returns a value and
  leaves the board as it was; at depth 0 it leaves a board with the same board beneath the
  last move.
\<close>

lemma undone_push: "undone (push E m b) = Some b"
  by (simp add: undone_def pop_push)

lemma undone_SomeD:
  assumes "undone b = Some c"
  obtains m where "stack b = (m, position c) # stack c"
  using assms by (auto simp: undone_def pop_def split: list.splits)

lemma undone_pop:
  "undone b = Some c \<Longrightarrow> \<exists>m. pop b = Inr (m, c)"
  by (auto simp: undone_def split: sum.splits)

lemma heuristic_undone:
  assumes "undone b = Some c"
  shows "\<exists>v ai' b'. heuristic_valuation E ai b = (Inr v, ai', b') \<and> undone b' = Some c"
proof (cases "position_cache ai (zobrist_hash E (position b))")
  case (Some v)
  then show ?thesis
    using assms by (simp add: heuristic_valuation_hit)
next
  case None
  obtain m where st: "stack b = (m, position c) # stack c"
    using assms by (rule undone_SomeD)
  show ?thesis
  proof (cases "turn E (position b)")
    case True
    then show ?thesis
      using assms by (simp add: heuristic_valuation_miss [OF None] mobility_white)
  next
    case False
    then show ?thesis
      by (simp add: heuristic_valuation_miss [OF None] mobility_black [OF False st] undone_push)
  qed
qed

lemma evaluate_move_restores:
  "\<exists>v ai'. evaluate_move E ai b m = (Inr v, ai', b)"
proof -
  obtain v ai' b' where h: "heuristic_valuation E ai (push E m b) = (Inr v, ai', b')"
    and u: "undone b' = Some b"
    using heuristic_undone [where b = "push E m b" and c = b and E = E and ai = ai, OF undone_push]
    by blast
  obtain m' where "pop b' = Inr (m', b)"
    using undone_pop [OF u] by blast
  then show ?thesis
    by (simp add: evaluate_move_def h)
qed

lemma sort_keys_restores:
  "\<exists>ks ai'. sort_keys E ai b ms = (Inr ks, ai', b) \<and> length ks = length ms"
proof (induction ms arbitrary: ai)
  case Nil
  show ?case by simp
next
  case (Cons m ms)
  obtain v ai1 where e: "evaluate_move E ai b m = (Inr v, ai1, b)"
    using evaluate_move_restores by blast
  obtain ks ai2 where "sort_keys E ai1 b ms = (Inr ks, ai2, b)" "length ks = length ms"
    using Cons.IH by blast
  then show ?case
    by (simp add: e)
qed

lemma sorted_moves_restores:
  "\<exists>ms ai'. sorted_moves E rv ai b = (Inr ms, ai', b) \<and> set ms = set (legal_moves E (position b))"
proof -
  obtain ks ai' where s: "sort_keys E ai b (legal_moves E (position b)) = (Inr ks, ai', b)"
    and l: "length ks = length (legal_moves E (position b))"
    using sort_keys_restores by blast
  have "set (map snd (sort_key (\<lambda>(k, m). if rv then - k else k) (zip ks (legal_moves E (position b)))))
      = set (legal_moves E (position b))"
  proof -
    have "map snd (zip ks (legal_moves E (position b))) = legal_moves E (position b)"
      using l by (rule map_snd_zip)
    then have "snd ` set (zip ks (legal_moves E (position b))) = set (legal_moves E (position b))"
      by (metis set_map)
    then show ?thesis
      by simp
  qed
  then show ?thesis
    by (simp add: sorted_moves_def s)
qed




section \<open>Move selection\<close>


















section \<open>Alpha-beta search and exhaustive minimax\<close>

text \<open>
  When the heuristic is determined by a leaf function and the cache agrees with it, every
  evaluation during a search yields the leaf value of the position's hash. The loops of the
  search then return a value that agrees with the maximum or minimum of the true values of
  the children in the window they were given, by induction over the sorted moves; the order
  of the moves does not matter for the maximum.
\<close>

lemma pyfloat_order [simp]:
  "NegInf \<le> x" "x \<le> PosInf"
  "\<not> x < NegInf" "\<not> PosInf < x"
  "Fin a < Fin b \<longleftrightarrow> a < b"
  "NegInf < Fin a" "Fin a < PosInf" "NegInf < PosInf"
  "x \<le> NegInf \<longleftrightarrow> x = NegInf" "PosInf \<le> x \<longleftrightarrow> x = PosInf"
  by (cases x; auto simp: less_pyfloat_def)+

lemma agrees_in_window_refl: "agrees_in_window v v alpha beta"
  by (auto simp: agrees_in_window_def)

lemma agrees_unbounded: "agrees_in_window r v NegInf PosInf \<Longrightarrow> r = v"
  by (cases v) (auto simp: agrees_in_window_def)


lemma window_cut:
  "alpha < beta \<Longrightarrow> agrees_in_window r1 v1 alpha beta \<Longrightarrow> beta \<le> max alpha r1 \<Longrightarrow>
   agrees_in_window (max alpha r1) (max v1 V) alpha beta"
  unfolding agrees_in_window_def by (auto simp: max_def not_le not_less split: if_splits)

lemma window_step:
  "alpha < beta \<Longrightarrow> agrees_in_window r1 v1 alpha beta \<Longrightarrow> max alpha r1 < beta \<Longrightarrow>
   max alpha r1 \<le> r \<Longrightarrow> agrees_in_window r V (max alpha r1) beta \<Longrightarrow>
   agrees_in_window r (max v1 V) alpha beta"
  unfolding agrees_in_window_def by (auto simp: max_def not_le not_less split: if_splits)

lemma window_cut_min:
  "alpha < beta \<Longrightarrow> agrees_in_window r1 v1 alpha beta \<Longrightarrow> min beta r1 \<le> alpha \<Longrightarrow>
   agrees_in_window (min beta r1) (min v1 V) alpha beta"
  unfolding agrees_in_window_def by (auto simp: min_def not_le not_less split: if_splits)

lemma window_step_min:
  "alpha < beta \<Longrightarrow> agrees_in_window r1 v1 alpha beta \<Longrightarrow> alpha < min beta r1 \<Longrightarrow>
   r \<le> min beta r1 \<Longrightarrow> agrees_in_window r V alpha (min beta r1) \<Longrightarrow>
   agrees_in_window r (min v1 V) alpha beta"
  unfolding agrees_in_window_def by (auto simp: min_def not_le not_less split: if_splits)

lemma Max_insert_step:
  fixes a :: "'a::linorder"
  assumes "finite A"
  shows "Max (insert a (insert x A)) = max x (Max (insert a A))"
proof -
  have "Max (insert x (insert a A)) = max x (Max (insert a A))"
    using assms by (intro Max_insert) auto
  then show ?thesis
    by (simp add: insert_commute)
qed

lemma Min_insert_step:
  fixes a :: "'a::linorder"
  assumes "finite A"
  shows "Min (insert a (insert x A)) = min x (Min (insert a A))"
proof -
  have "Min (insert x (insert a A)) = min x (Min (insert a A))"
    using assms by (intro Min_insert) auto
  then show ?thesis
    by (simp add: insert_commute)
qed

lemma fold_max_Max:
  fixes a :: "'a::linorder"
  shows "fold max xs a = Max (insert a (set xs))"
  using Max.set_eq_fold [of a xs] by simp

lemma fold_min_Min:
  fixes a :: "'a::linorder"
  shows "fold min xs a = Min (insert a (set xs))"
  using Min.set_eq_fold [of a xs] by simp

lemma push_position [simp]: "position (push E m b) = make_move E (position b) m"
  by (simp add: push_def)

lemma new_board_simps [simp]: "position (new_board p) = p" "stack (new_board p) = []"
  by (simp_all add: new_board_def)

lemma cache_agrees_update:
  "cache_agrees ai leaf \<Longrightarrow>
   cache_agrees (ai\<lparr>position_cache := (position_cache ai)(h \<mapsto> leaf h)\<rparr>) leaf"
  by (simp add: cache_agrees_def)

lemma heuristic_fresh:
  assumes "position_cache ai (zobrist_hash E (position (push E m c))) = None"
  shows "fst (heuristic_valuation E ai (push E m c))
         = fst (heuristic_valuation E fresh_engine (push E m (new_board (position c))))"
proof -
  let ?b = "push E m c" and ?n = "push E m (new_board (position c))"
  have p: "position ?n = position ?b"
    by simp
  have f: "position_cache fresh_engine (zobrist_hash E (position ?n)) = None"
    by (simp add: fresh_engine_def)
  have cp: "count_pieces E ?n = count_pieces E ?b"
    by (simp add: count_pieces_def)
  show ?thesis
  proof (cases "turn E (position ?b)")
    case True
    then have t: "turn E (position ?n)" by simp
    have "get_pawn_development E ?n = get_pawn_development E ?b"
      by (simp add: get_pawn_development_def)
    then show ?thesis
      by (simp add: heuristic_valuation_miss [OF assms] heuristic_valuation_miss [OF f]
          mobility_white [OF True] mobility_white [OF t] cp)
  next
    case False
    then have t: "\<not> turn E (position ?n)" by simp
    have s1: "stack ?b = (m, position c) # stack c"
      by (simp add: push_def)
    have s2: "stack ?n = (m, position c) # []"
      by (simp add: push_def)
    have "get_pawn_development E (push E null \<lparr>position = position c, stack = []\<rparr>)
        = get_pawn_development E (push E null \<lparr>position = position c, stack = stack c\<rparr>)"
      by (simp add: get_pawn_development_def)
    then show ?thesis
      by (simp add: heuristic_valuation_miss [OF assms] heuristic_valuation_miss [OF f]
          mobility_black [OF False s1] mobility_black [OF t s2] cp)
  qed
qed

lemma heuristic_inserts:
  assumes "position_cache ai (zobrist_hash E (position b)) = None"
    and "heuristic_valuation E ai b = (Inr v, ai', b')"
  shows "ai' = ai\<lparr>position_cache := (position_cache ai)(zobrist_hash E (position b) \<mapsto> v)\<rparr>"
  using assms(2) unfolding heuristic_valuation_miss [OF assms(1)]
  by (auto split: prod.splits sum.splits)

lemma heuristic_leaf:
  assumes "cache_agrees ai leaf"
    and "fst (heuristic_valuation E fresh_engine (push E m (new_board (position c))))
         = Inr (leaf (zobrist_hash E (make_move E (position c) m)))"
  shows "\<exists>ai' b'. heuristic_valuation E ai (push E m c)
             = (Inr (leaf (zobrist_hash E (make_move E (position c) m))), ai', b')
           \<and> cache_agrees ai' leaf \<and> undone b' = Some c"
proof -
  let ?h = "zobrist_hash E (make_move E (position c) m)"
  obtain v ai' b' where h: "heuristic_valuation E ai (push E m c) = (Inr v, ai', b')"
    and u: "undone b' = Some c"
    using heuristic_undone [where b = "push E m c" and c = c and E = E and ai = ai, OF undone_push]
    by blast
  show ?thesis
  proof (cases "position_cache ai ?h")
    case None
    then have n: "position_cache ai (zobrist_hash E (position (push E m c))) = None"
      by simp
    have "Inr v = fst (heuristic_valuation E fresh_engine (push E m (new_board (position c))))"
      using heuristic_fresh [OF n] h by simp
    then have v: "v = leaf ?h"
      using assms(2) by simp
    have "ai' = ai\<lparr>position_cache := (position_cache ai)(?h \<mapsto> leaf ?h)\<rparr>"
      using heuristic_inserts [OF n h] v by simp
    then show ?thesis
      using h u v cache_agrees_update [OF assms(1)] by simp
  next
    case (Some w)
    then have "heuristic_valuation E ai (push E m c) = (Inr w, ai, push E m c)"
      by (simp add: heuristic_valuation_hit)
    moreover have "w = leaf ?h"
      using Some assms(1) by (simp add: cache_agrees_def)
    ultimately show ?thesis
      using assms(1) by (simp add: undone_push)
  qed
qed

lemma evaluate_move_leaf:
  assumes "cache_agrees ai leaf"
    and "fst (heuristic_valuation E fresh_engine (push E m (new_board (position c))))
         = Inr (leaf (zobrist_hash E (make_move E (position c) m)))"
  shows "\<exists>ai'. evaluate_move E ai c m
             = (Inr (leaf (zobrist_hash E (make_move E (position c) m))), ai', c)
           \<and> cache_agrees ai' leaf"
proof -
  obtain ai' b' where h: "heuristic_valuation E ai (push E m c)
      = (Inr (leaf (zobrist_hash E (make_move E (position c) m))), ai', b')"
    and a: "cache_agrees ai' leaf" and u: "undone b' = Some c"
    using heuristic_leaf [OF assms] by blast
  obtain m' where "pop b' = Inr (m', c)"
    using undone_pop [OF u] by blast
  then show ?thesis
    using a by (simp add: evaluate_move_def h)
qed

lemma sort_keys_leaf:
  assumes "cache_agrees ai leaf"
    and "\<forall>m \<in> set ms. fst (heuristic_valuation E fresh_engine (push E m (new_board (position c))))
         = Inr (leaf (zobrist_hash E (make_move E (position c) m)))"
  shows "\<exists>ks ai'. sort_keys E ai c ms = (Inr ks, ai', c) \<and> cache_agrees ai' leaf"
  using assms
proof (induction ms arbitrary: ai)
  case Nil
  then show ?case by simp
next
  case (Cons m ms)
  obtain ai1 where e: "evaluate_move E ai c m
      = (Inr (leaf (zobrist_hash E (make_move E (position c) m))), ai1, c)"
    and a: "cache_agrees ai1 leaf"
    using evaluate_move_leaf [OF Cons.prems(1)] Cons.prems(2) by fastforce
  obtain ks ai2 where "sort_keys E ai1 c ms = (Inr ks, ai2, c)" "cache_agrees ai2 leaf"
    using Cons.IH [OF a] Cons.prems(2) by auto
  then show ?case
    by (simp add: e)
qed

lemma sorted_moves_leaf:
  assumes "cache_agrees ai leaf"
    and "\<forall>m \<in> set (legal_moves E (position c)).
           fst (heuristic_valuation E fresh_engine (push E m (new_board (position c))))
           = Inr (leaf (zobrist_hash E (make_move E (position c) m)))"
  shows "\<exists>ms ai'. sorted_moves E rv ai c = (Inr ms, ai', c) \<and> cache_agrees ai' leaf
           \<and> set ms = set (legal_moves E (position c))"
proof -
  obtain ks ai' where s: "sort_keys E ai c (legal_moves E (position c)) = (Inr ks, ai', c)"
    and a: "cache_agrees ai' leaf"
    using sort_keys_leaf [OF assms] by blast
  obtain ms ai'' where r: "sorted_moves E rv ai c = (Inr ms, ai'', c)"
    and t: "set ms = set (legal_moves E (position c))"
    using sorted_moves_restores by blast
  have "ai'' = ai'"
    using r s by (simp add: sorted_moves_def)
  then show ?thesis
    using r t a by simp
qed

lemma if_greater_max: "(if (v::pyfloat) > a then v else a) = max a v"
  by (auto simp: max_def)

lemma if_less_min: "(if (v::pyfloat) < a then v else a) = min a v"
  by (auto simp: min_def)

lemma white_loop_value:
  assumes "cache_agrees ai leaf" and "alpha < beta"
    and "\<And>a m al. cache_agrees a leaf \<Longrightarrow> al < beta \<Longrightarrow> m \<in> set ms \<Longrightarrow>
           \<exists>r ai' b'. rec a (push E m c) al beta = Some (Inr (Some r), ai', b')
             \<and> undone b' = Some c \<and> cache_agrees ai' leaf \<and> agrees_in_window r (cv m) al beta"
  shows "\<exists>r ai'. white_loop E rec ai c alpha beta ms = Some (Inr (Some r), ai', c)
           \<and> cache_agrees ai' leaf \<and> alpha \<le> r
           \<and> agrees_in_window r (Max (insert NegInf (cv ` set ms))) alpha beta"
  using assms
proof (induction ms arbitrary: ai alpha)
  case Nil
  then show ?case
    by (auto simp: agrees_in_window_def)
next
  case (Cons m ms)
  obtain r1 ai1 b1 where c: "rec ai (push E m c) alpha beta = Some (Inr (Some r1), ai1, b1)"
    and u: "undone b1 = Some c" and a1: "cache_agrees ai1 leaf"
    and w1: "agrees_in_window r1 (cv m) alpha beta"
    using Cons.prems(3) [OF Cons.prems(1,2), of m] by auto
  obtain m' where p: "pop b1 = Inr (m', c)"
    using undone_pop [OF u] by blast
  have mx: "Max (insert NegInf (cv ` set (m # ms)))
      = max (cv m) (Max (insert NegInf (cv ` set ms)))"
  proof -
    have "cv ` set (m # ms) = insert (cv m) (cv ` set ms)" and "finite (cv ` set ms)"
      by simp_all
    then show ?thesis
      by (simp only: Max_insert_step)
  qed
  show ?case
  proof (cases "beta \<le> max alpha r1")
    case True
    have "agrees_in_window (max alpha r1) (Max (insert NegInf (cv ` set (m # ms)))) alpha beta"
      unfolding mx by (rule window_cut [OF Cons.prems(2) w1 True])
    then show ?thesis
      using True a1 by (simp add: c p if_greater_max)
  next
    case False
    then have lt: "max alpha r1 < beta" by (simp only: not_le)
    have "\<exists>r ai'. white_loop E rec ai1 c (max alpha r1) beta ms = Some (Inr (Some r), ai', c)
           \<and> cache_agrees ai' leaf \<and> max alpha r1 \<le> r
           \<and> agrees_in_window r (Max (insert NegInf (cv ` set ms))) (max alpha r1) beta"
      by (rule Cons.IH [OF a1 lt]) (rule Cons.prems(3), simp_all)
    then obtain r ai' where l: "white_loop E rec ai1 c (max alpha r1) beta ms = Some (Inr (Some r), ai', c)"
      and a': "cache_agrees ai' leaf" and ge: "max alpha r1 \<le> r"
      and w: "agrees_in_window r (Max (insert NegInf (cv ` set ms))) (max alpha r1) beta"
      by blast
    have "agrees_in_window r (Max (insert NegInf (cv ` set (m # ms)))) alpha beta"
      unfolding mx by (rule window_step [OF Cons.prems(2) w1 lt ge w])
    moreover have "alpha \<le> r"
      using ge by simp
    ultimately show ?thesis
      using False a' by (simp add: c p if_greater_max l)
  qed
qed

lemma black_loop_value:
  assumes "cache_agrees ai leaf" and "alpha < beta"
    and "\<And>a m be. cache_agrees a leaf \<Longrightarrow> alpha < be \<Longrightarrow> m \<in> set ms \<Longrightarrow>
           \<exists>r ai' b'. rec a (push E m c) alpha be = Some (Inr (Some r), ai', b')
             \<and> undone b' = Some c \<and> cache_agrees ai' leaf \<and> agrees_in_window r (cv m) alpha be"
  shows "\<exists>r ai'. black_loop E rec ai c alpha beta ms = Some (Inr (Some r), ai', c)
           \<and> cache_agrees ai' leaf \<and> r \<le> beta
           \<and> agrees_in_window r (Min (insert PosInf (cv ` set ms))) alpha beta"
  using assms
proof (induction ms arbitrary: ai beta)
  case Nil
  then show ?case
    by (auto simp: agrees_in_window_def)
next
  case (Cons m ms)
  obtain r1 ai1 b1 where c: "rec ai (push E m c) alpha beta = Some (Inr (Some r1), ai1, b1)"
    and u: "undone b1 = Some c" and a1: "cache_agrees ai1 leaf"
    and w1: "agrees_in_window r1 (cv m) alpha beta"
    using Cons.prems(3) [OF Cons.prems(1,2), of m] by auto
  obtain m' where p: "pop b1 = Inr (m', c)"
    using undone_pop [OF u] by blast
  have mn: "Min (insert PosInf (cv ` set (m # ms)))
      = min (cv m) (Min (insert PosInf (cv ` set ms)))"
  proof -
    have "cv ` set (m # ms) = insert (cv m) (cv ` set ms)" and "finite (cv ` set ms)"
      by simp_all
    then show ?thesis
      by (simp only: Min_insert_step)
  qed
  show ?case
  proof (cases "min beta r1 \<le> alpha")
    case True
    have "agrees_in_window (min beta r1) (Min (insert PosInf (cv ` set (m # ms)))) alpha beta"
      unfolding mn by (rule window_cut_min [OF Cons.prems(2) w1 True])
    then show ?thesis
      using True a1 by (simp add: c p if_less_min)
  next
    case False
    then have lt: "alpha < min beta r1" by (simp only: not_le)
    have "\<exists>r ai'. black_loop E rec ai1 c alpha (min beta r1) ms = Some (Inr (Some r), ai', c)
           \<and> cache_agrees ai' leaf \<and> r \<le> min beta r1
           \<and> agrees_in_window r (Min (insert PosInf (cv ` set ms))) alpha (min beta r1)"
      by (rule Cons.IH [OF a1 lt]) (rule Cons.prems(3), simp_all)
    then obtain r ai' where l: "black_loop E rec ai1 c alpha (min beta r1) ms = Some (Inr (Some r), ai', c)"
      and a': "cache_agrees ai' leaf" and le: "r \<le> min beta r1"
      and w: "agrees_in_window r (Min (insert PosInf (cv ` set ms))) alpha (min beta r1)"
      by blast
    have "agrees_in_window r (Min (insert PosInf (cv ` set (m # ms)))) alpha beta"
      unfolding mn by (rule window_step_min [OF Cons.prems(2) w1 lt le w])
    moreover have "r \<le> beta"
      using le by simp
    ultimately show ?thesis
      using False a' by (simp add: c p if_less_min l)
  qed
qed

lemma alpha_beta_search_value:
  assumes "cache_agrees ai leaf" and "alpha < beta" and "0 \<le> depth" and "nat depth < fuel"
    and "player = ''White'' \<or> player = ''Black''"
    and "leaf_determined (nat depth) E leaf (position b)"
    and "depth = 0 \<longrightarrow> (\<exists>m c. b = push E m c
           \<and> fst (heuristic_valuation E fresh_engine (push E m (new_board (position c))))
               = Inr (leaf (zobrist_hash E (make_move E (position c) m))))"
  shows "\<exists>r ai' b'. alpha_beta_search fuel E ai b alpha beta player depth
             = Some (Inr (Some r), ai', b')
           \<and> undone b' = undone b \<and> (1 \<le> depth \<longrightarrow> b' = b) \<and> cache_agrees ai' leaf
           \<and> agrees_in_window r
               (minimax_value (nat depth) E leaf (player = ''White'') (position b)) alpha beta"
  using assms
proof (induction fuel arbitrary: ai b alpha beta player depth)
  case 0
  then show ?case by simp
next
  case (Suc fuel)
  show ?case
  proof (cases "depth = 0")
    case True
    then obtain m c where b: "b = push E m c"
      and f: "fst (heuristic_valuation E fresh_engine (push E m (new_board (position c))))
               = Inr (leaf (zobrist_hash E (make_move E (position c) m)))"
      using Suc.prems(7) by blast
    obtain ai' b' where "heuristic_valuation E ai (push E m c)
          = (Inr (leaf (zobrist_hash E (make_move E (position c) m))), ai', b')"
      "cache_agrees ai' leaf" "undone b' = Some c"
      using heuristic_leaf [OF Suc.prems(1) f] by blast
    then show ?thesis
      using True b by (simp add: undone_push agrees_in_window_refl)
  next
    case False
    then have d: "0 \<le> depth - 1" "nat (depth - 1) < fuel" and n: "nat depth = Suc (nat (depth - 1))"
      using Suc.prems(3,4) by auto
    have ld: "\<forall>m \<in> set (legal_moves E (position b)).
        fst (heuristic_valuation E fresh_engine (push E m (new_board (position b))))
          = Inr (leaf (zobrist_hash E (make_move E (position b) m)))
        \<and> leaf_determined (nat (depth - 1)) E leaf (make_move E (position b) m)"
      using Suc.prems(6) unfolding n by simp
    have rec: "\<exists>r ai' b'. alpha_beta_search fuel E a (push E m b) al be p (depth - 1)
                 = Some (Inr (Some r), ai', b')
               \<and> undone b' = Some b \<and> cache_agrees ai' leaf
               \<and> agrees_in_window r
                   (minimax_value (nat (depth - 1)) E leaf (p = ''White'') (make_move E (position b) m))
                   al be"
      if "cache_agrees a leaf" "al < be" "m \<in> set (legal_moves E (position b))"
        "p = ''White'' \<or> p = ''Black''" for a m al be p
    proof -
      have "\<exists>r ai' b'. alpha_beta_search fuel E a (push E m b) al be p (depth - 1)
                 = Some (Inr (Some r), ai', b')
               \<and> undone b' = undone (push E m b) \<and> (1 \<le> depth - 1 \<longrightarrow> b' = push E m b)
               \<and> cache_agrees ai' leaf
               \<and> agrees_in_window r
                   (minimax_value (nat (depth - 1)) E leaf (p = ''White'') (position (push E m b)))
                   al be"
        using ld that(3) by (intro Suc.IH [OF that(1,2) d that(4)]) auto
      then show ?thesis
        by (auto simp: undone_push)
    qed
    have ev: "\<forall>m \<in> set (legal_moves E (position b)).
        fst (heuristic_valuation E fresh_engine (push E m (new_board (position b))))
          = Inr (leaf (zobrist_hash E (make_move E (position b) m)))"
      using ld by simp
    show ?thesis
    proof (cases "player = ''White''")
      case True
      let ?cv = "\<lambda>m. minimax_value (nat (depth - 1)) E leaf False (make_move E (position b) m)"
      obtain ms ai1 where s: "sorted_moves E True ai b = (Inr ms, ai1, b)"
        and a1: "cache_agrees ai1 leaf" and st: "set ms = set (legal_moves E (position b))"
        using sorted_moves_leaf [OF Suc.prems(1) ev] by blast
      have "\<exists>r ai'. white_loop E
              (\<lambda>ai b alpha beta. alpha_beta_search fuel E ai b alpha beta ''Black'' (depth - 1))
              ai1 b alpha beta ms = Some (Inr (Some r), ai', b)
           \<and> cache_agrees ai' leaf \<and> alpha \<le> r
           \<and> agrees_in_window r (Max (insert NegInf (?cv ` set ms))) alpha beta"
        using rec [where p = "''Black''"] st
        by (intro white_loop_value [OF a1 Suc.prems(2)]) simp
      moreover have "minimax_value (nat depth) E leaf True (position b)
          = Max (insert NegInf (?cv ` set ms))"
        unfolding n by (simp add: fold_max_Max st)
      ultimately show ?thesis
        using False True s by auto
    next
      case nw: False
      then have bl: "player = ''Black''"
        using Suc.prems(5) by simp
      let ?cv = "\<lambda>m. minimax_value (nat (depth - 1)) E leaf True (make_move E (position b) m)"
      obtain ms ai1 where s: "sorted_moves E False ai b = (Inr ms, ai1, b)"
        and a1: "cache_agrees ai1 leaf" and st: "set ms = set (legal_moves E (position b))"
        using sorted_moves_leaf [OF Suc.prems(1) ev] by blast
      have "\<exists>r ai'. black_loop E
              (\<lambda>ai b alpha beta. alpha_beta_search fuel E ai b alpha beta ''White'' (depth - 1))
              ai1 b alpha beta ms = Some (Inr (Some r), ai', b)
           \<and> cache_agrees ai' leaf \<and> r \<le> beta
           \<and> agrees_in_window r (Min (insert PosInf (?cv ` set ms))) alpha beta"
        using rec [where p = "''White''"] st
        by (intro black_loop_value [OF a1 Suc.prems(2)]) simp
      moreover have "minimax_value (nat depth) E leaf False (position b)
          = Min (insert PosInf (?cv ` set ms))"
        unfolding n by (simp add: fold_min_Min st)
      ultimately show ?thesis
        using False bl s by auto
    qed
  qed
qed

lemma minimax_children_value:
  assumes "cache_agrees ai leaf"
    and "\<And>a m. cache_agrees a leaf \<Longrightarrow> m \<in> set ms \<Longrightarrow>
           \<exists>ai' b'. rec a (push E m c) = (Inr (cv m), ai', b')
             \<and> undone b' = Some c \<and> cache_agrees ai' leaf"
  shows "\<exists>ai'. minimax_children E rec maximizing ai c best ms
             = (Inr (if maximizing then fold max (map cv ms) best else fold min (map cv ms) best),
                ai', c)
           \<and> cache_agrees ai' leaf"
  using assms
proof (induction ms arbitrary: ai best)
  case Nil
  then show ?case by simp
next
  case (Cons m ms)
  obtain ai1 b1 where c: "rec ai (push E m c) = (Inr (cv m), ai1, b1)"
    and u: "undone b1 = Some c" and a1: "cache_agrees ai1 leaf"
    using Cons.prems(2) [OF Cons.prems(1), of m] by auto
  obtain m' where p: "pop b1 = Inr (m', c)"
    using undone_pop [OF u] by blast
  have "\<exists>ai'. minimax_children E rec maximizing ai1 c
                 (if maximizing then max best (cv m) else min best (cv m)) ms
             = (Inr (if maximizing
                     then fold max (map cv ms) (if maximizing then max best (cv m) else min best (cv m))
                     else fold min (map cv ms) (if maximizing then max best (cv m) else min best (cv m))),
                ai', c)
           \<and> cache_agrees ai' leaf"
    by (rule Cons.IH [OF a1]) (rule Cons.prems(2), simp_all)
  then show ?case
    by (auto simp: c p max.commute min.commute)
qed

lemma exhaustive_minimax_value:
  assumes "cache_agrees ai leaf"
    and "leaf_determined d E leaf (position b)"
    and "d = 0 \<longrightarrow> (\<exists>m c. b = push E m c
           \<and> fst (heuristic_valuation E fresh_engine (push E m (new_board (position c))))
               = Inr (leaf (zobrist_hash E (make_move E (position c) m))))"
  shows "\<exists>ai' b'. exhaustive_minimax d E maximizing ai b
             = (Inr (minimax_value d E leaf maximizing (position b)), ai', b')
           \<and> undone b' = undone b \<and> (1 \<le> d \<longrightarrow> b' = b) \<and> cache_agrees ai' leaf"
  using assms
proof (induction d arbitrary: ai b maximizing)
  case 0
  then obtain m c where b: "b = push E m c"
    and f: "fst (heuristic_valuation E fresh_engine (push E m (new_board (position c))))
             = Inr (leaf (zobrist_hash E (make_move E (position c) m)))"
    by blast
  obtain ai' b' where "heuristic_valuation E ai (push E m c)
        = (Inr (leaf (zobrist_hash E (make_move E (position c) m))), ai', b')"
    "cache_agrees ai' leaf" "undone b' = Some c"
    using heuristic_leaf [OF "0.prems"(1) f] by blast
  then show ?case
    using b by (simp add: undone_push)
next
  case (Suc d)
  let ?cv = "\<lambda>m. minimax_value d E leaf (\<not> maximizing) (make_move E (position b) m)"
  have ld: "\<forall>m \<in> set (legal_moves E (position b)).
      fst (heuristic_valuation E fresh_engine (push E m (new_board (position b))))
        = Inr (leaf (zobrist_hash E (make_move E (position b) m)))
      \<and> leaf_determined d E leaf (make_move E (position b) m)"
    using Suc.prems(2) by simp
  have rec: "\<exists>ai' b'. exhaustive_minimax d E (\<not> maximizing) a (push E m b) = (Inr (?cv m), ai', b')
               \<and> undone b' = Some b \<and> cache_agrees ai' leaf"
    if "cache_agrees a leaf" "m \<in> set (legal_moves E (position b))" for a m
  proof -
    have "\<exists>ai' b'. exhaustive_minimax d E (\<not> maximizing) a (push E m b)
               = (Inr (minimax_value d E leaf (\<not> maximizing) (position (push E m b))), ai', b')
             \<and> undone b' = undone (push E m b) \<and> (1 \<le> d \<longrightarrow> b' = push E m b)
             \<and> cache_agrees ai' leaf"
      using ld that(2) by (intro Suc.IH [OF that(1)]) auto
    then show ?thesis
      by (auto simp: undone_push)
  qed
  have "\<exists>ai'. minimax_children E (\<lambda>ai b. exhaustive_minimax d E (\<not> maximizing) ai b) maximizing ai b
                 (if maximizing then NegInf else PosInf) (legal_moves E (position b))
             = (Inr (if maximizing
                     then fold max (map ?cv (legal_moves E (position b))) (if maximizing then NegInf else PosInf)
                     else fold min (map ?cv (legal_moves E (position b))) (if maximizing then NegInf else PosInf)),
                ai', b)
           \<and> cache_agrees ai' leaf"
    using rec by (intro minimax_children_value [OF Suc.prems(1)]) simp
  then show ?case
    by (cases maximizing) auto
qed

text \<open>
  C2, as amended. Let the depth be at least 0 and the fuel above it, and, for a depth of
  at least 1, let the cache agree with a leaf function that determines the heuristic down
  to that depth below the position of the board. Then the search with the bounds minus and
  plus infinity returns what the exhaustive minimax traversal returns, for either player;
  for a depth of at least 1 that is a value, and at depth 0 both are the one heuristic
  evaluation of the board.
\<close>

theorem pruning_equivalence:
  assumes "0 \<le> depth" and "nat depth < fuel"
    and "1 \<le> depth \<Longrightarrow> cache_agrees ai leaf"
    and "1 \<le> depth \<Longrightarrow> leaf_determined (nat depth) E leaf (position b)"
  shows "map_option fst (alpha_beta_search fuel E ai b NegInf PosInf ''White'' depth)
           = Some (map_sum id Some (fst (exhaustive_minimax (nat depth) E True ai b)))
         \<and> map_option fst (alpha_beta_search fuel E ai b NegInf PosInf ''Black'' depth)
           = Some (map_sum id Some (fst (exhaustive_minimax (nat depth) E False ai b)))
         \<and> (1 \<le> depth \<longrightarrow>
              (\<exists>v. fst (exhaustive_minimax (nat depth) E True ai b) = Inr v)
              \<and> (\<exists>v. fst (exhaustive_minimax (nat depth) E False ai b) = Inr v))"
proof (cases "depth = 0")
  case True
  obtain f where f: "fuel = Suc f"
    using assms(2) by (cases fuel) auto
  show ?thesis
    using True by (simp add: f split: prod.splits sum.splits)
next
  case False
  then have d: "1 \<le> depth"
    using assms(1) by simp
  note a = assms(3) [OF d] and l = assms(4) [OF d]
  have nz: "depth = 0 \<longrightarrow> (\<exists>m c. b = push E m c
           \<and> fst (heuristic_valuation E fresh_engine (push E m (new_board (position c))))
               = Inr (leaf (zobrist_hash E (make_move E (position c) m))))"
    and nz': "nat depth = 0 \<longrightarrow> (\<exists>m c. b = push E m c
           \<and> fst (heuristic_valuation E fresh_engine (push E m (new_board (position c))))
               = Inr (leaf (zobrist_hash E (make_move E (position c) m))))"
    using d by auto
  have w: "\<exists>ai'. alpha_beta_search fuel E ai b NegInf PosInf p depth
             = Some (Inr (Some (minimax_value (nat depth) E leaf (p = ''White'') (position b))), ai', b)"
    if "p = ''White'' \<or> p = ''Black''" for p
    using alpha_beta_search_value [OF a _ assms(1,2) that l nz, of NegInf PosInf] d
    by (auto dest: agrees_unbounded)
  have m: "\<exists>ai'. exhaustive_minimax (nat depth) E mx ai b
             = (Inr (minimax_value (nat depth) E leaf mx (position b)), ai', b)" for mx
    using exhaustive_minimax_value [OF a l nz', of mx] d by auto
  show ?thesis
    using w [of "''White''"] w [of "''Black''"] m [of True] m [of False]
    by auto
qed

lemma small_tree_agrees: "cache_agrees fresh_engine tree_leaf"
  by (simp add: cache_agrees_def fresh_engine_def)

lemma small_tree_determined: "leaf_determined 2 (small_game False) tree_leaf Root"
  by code_simp

text \<open>
  The statement for the small game without the transposition, from \<open>Root\<close> at depth 2.
\<close>

theorem pruning_equivalence_witness:
  "(0::int) \<le> 2 \<and> nat 2 < (3::nat)
   \<and> cache_agrees fresh_engine tree_leaf
   \<and> leaf_determined (nat 2) (small_game False) tree_leaf (position (new_board Root))
   \<and> map_option fst (alpha_beta_search 3 (small_game False) fresh_engine (new_board Root)
        NegInf PosInf ''Black'' 2) = Some (Inr (Some (Fin 3.1)))
   \<and> fst (exhaustive_minimax (nat 2) (small_game False) False fresh_engine (new_board Root))
       = Inr (Fin 3.1)"
proof -
  have 1: "(0::int) \<le> 2" by simp
  have 2: "nat 2 < (3::nat)" by simp
  have 3: "cache_agrees fresh_engine tree_leaf"
    by (rule small_tree_agrees)
  have 4: "leaf_determined (nat 2) (small_game False) tree_leaf (position (new_board Root))"
    using small_tree_determined by simp
  have 5: "fst (exhaustive_minimax (nat 2) (small_game False) False fresh_engine (new_board Root))
       = Inr (Fin 3.1)"
    by code_simp
  show ?thesis
    using 1 2 3 4 5 pruning_equivalence [OF 1 2 3 4] by simp
qed

text \<open>
  C2 as stated fails, since the value of a leaf is whatever the cache holds for its hash.
  In the game of three plies the search from \<open>Top\<close> at depth 3 returns 0, and the
  exhaustive traversal returns 1, with and without the move ordering. The search cuts
  \<open>Cb\<close> off after \<open>Gb1\<close> and never evaluates \<open>Lb2\<close> (worth 1), so that it later
  computes the value 0 of \<open>Lc\<close>; the traversal evaluates \<open>Lb2\<close> and later finds its
  value cached under the hash of \<open>Lc\<close>.
\<close>

theorem search_differs_from_minimax:
  "map_option fst (alpha_beta_search 4 pruning_game fresh_engine (new_board Top)
     NegInf PosInf ''Black'' 3) = Some (Inr (Some (Fin 0)))
   \<and> fst (exhaustive_minimax 3 pruning_game False fresh_engine (new_board Top)) = Inr (Fin 1)
   \<and> fst (ordered_minimax 3 pruning_game False fresh_engine (new_board Top)) = Inr (Fin 1)
   \<and> map_option fst (alpha_beta_search 4 pruning_game fresh_engine (new_board Top)
        NegInf PosInf ''Black'' 3)
       \<noteq> Some (map_sum id Some
            (fst (exhaustive_minimax 3 pruning_game False fresh_engine (new_board Top))))"
proof -
  have 1: "map_option fst (alpha_beta_search 4 pruning_game fresh_engine (new_board Top)
     NegInf PosInf ''Black'' 3) = Some (Inr (Some (Fin 0)))"
    by code_simp
  have 2: "fst (exhaustive_minimax 3 pruning_game False fresh_engine (new_board Top))
       = Inr (Fin 1)"
    by code_simp
  have 3: "fst (ordered_minimax 3 pruning_game False fresh_engine (new_board Top))
       = Inr (Fin 1)"
    by code_simp
  show ?thesis
    unfolding 1 2 3 by simp
qed

text \<open>
  Two smaller games at depth 2, where the move ordering alone changes the value. With the
  hash collision the search from \<open>Root\<close> returns 1 and the exhaustive traversal 3: the
  ordered search evaluates \<open>LeafZ\<close> (worth 1) before \<open>LeafX\<close> (worth 3), the traversal
  after it, and the second of the two is given the cached value of the first. With the
  transposition the search returns 3.4 and the traversal 3.1: \<open>LeafX\<close> has Black to
  move, so its evaluation counts White's moves on the position it was reached from, 3.4
  from \<open>NodeB\<close> and 3.1 from \<open>NodeA\<close>, and the ordered search reaches it from
  \<open>NodeB\<close> first, the traversal from \<open>NodeA\<close>.
\<close>

lemma collision_changes_value:
  "map_option fst (alpha_beta_search 3 collision_game fresh_engine (new_board Root)
     NegInf PosInf ''White'' 2) = Some (Inr (Some (Fin 1)))
   \<and> fst (exhaustive_minimax 2 collision_game True fresh_engine (new_board Root)) = Inr (Fin 3)"
  by code_simp

lemma transposition_changes_value:
  "map_option fst (alpha_beta_search 3 (small_game True) fresh_engine (new_board Root)
     NegInf PosInf ''Black'' 2) = Some (Inr (Some (Fin 3.4)))
   \<and> fst (exhaustive_minimax 2 (small_game True) False fresh_engine (new_board Root))
       = Inr (Fin 3.1)"
  by code_simp

end
